theory Spec2Isabelle
  imports Main
begin

section \<open>The license-header normalizer of scripts/updateLicense.py\<close>

text \<open>
  The script reads a Go source file into a list of lines, looks for a copyright notice in
  the first five lines, splices a license header into the list when it decides to, and
  writes the list back. The embedding follows the script definition by definition.

  Conventions of the embedding:
  \<^item> a Python \<open>str\<close> is a \<open>string\<close> of 8-bit characters, the code points 0 to 255;
    on these \<open>\d\<close>, the case folding of \<open>re.I\<close> and the white space of \<open>str.strip\<close>
    are as Python has them. Code points beyond are outside the model;
  \<^item> \<open>CURRENT_YEAR\<close>, computed once from the clock, is a parameter \<open>cy\<close>; it is the
    \<open>year\<close> of a \<open>datetime\<close>, a number from 1 to 9999;
  \<^item> \<open>int\<close> of a digit string is its decimal value, and a \<open>ValueError\<close> when the
    string has more than 4300 digits, the default limit of CPython;
  \<^item> a file is its decoded text. \<open>open(name)\<close> reads in text mode with universal
    newlines: every \<open>CR LF\<close> and every other \<open>CR\<close> is handed over as \<open>LF\<close>, and
    \<open>list(f)\<close> cuts what is handed over after every \<open>LF\<close>. \<open>open(name, 'w')\<close>
    writes \<open>LF\<close> as the line separator of the platform, taken to be \<open>LF\<close> (POSIX), so
    the text on disk after a rewrite is the lines written, one after the other.
    \<open>update_go_license\<close> takes the text of the file in place of its name; its parameter
    \<open>force\<close> is never read. Failures of \<open>open\<close> are outside the model; the exceptions
    the function body itself raises are values of \<open>error\<close>;
  \<^item> \<open>main\<close>, which calls \<open>update_go_license\<close> on every argument and logs and
    re-raises what it raises, is not modelled.
\<close>

subsection \<open>Exceptions\<close>

datatype error = IndexError | TypeError | ValueError

subsection \<open>Strings\<close>

text \<open>\<open>sub in s\<close> on strings: \<open>sub\<close> occurs in \<open>s\<close> as a contiguous block.\<close>

fun startswith :: "string \<Rightarrow> string \<Rightarrow> bool" where
  "startswith s [] = True"
| "startswith [] (p # ps) = False"
| "startswith (c # cs) (p # ps) = (c = p \<and> startswith cs ps)"

fun contains :: "string \<Rightarrow> string \<Rightarrow> bool" where
  "contains sub [] = startswith [] sub"
| "contains sub (c # cs) = (startswith (c # cs) sub \<or> contains sub cs)"

definition isspace :: "char \<Rightarrow> bool" where
  "isspace c = (c \<in> set [CHR '' '', CHR 0x09, CHR ''\<newline>'', CHR 0x0B, CHR 0x0C, CHR 0x0D,
                          CHR 0x1C, CHR 0x1D, CHR 0x1E, CHR 0x1F, CHR 0x85, CHR 0xA0])"

text \<open>\<open>s.strip()\<close>: white space removed at both ends.\<close>

definition strip :: "string \<Rightarrow> string" where
  "strip s = rev (dropWhile isspace (rev (dropWhile isspace s)))"

text \<open>\<open>s.split(d)\<close> for a one-character separator: never an empty list.\<close>

fun split :: "char \<Rightarrow> string \<Rightarrow> string list" where
  "split d [] = [[]]"
| "split d (c # cs) =
     (if c = d then [] # split d cs
      else (let r = split d cs in (c # hd r) # tl r))"

text \<open>\<open>'%d' % n\<close> for a natural number: its decimal digits.\<close>

fun format_d :: "nat \<Rightarrow> string" where
  "format_d n =
     (if n < 10 then [''0123456789'' ! n]
      else format_d (n div 10) @ [''0123456789'' ! (n mod 10)])"

declare format_d.simps [simp del]

definition isdigit :: "char \<Rightarrow> bool" where
  "isdigit c = (c \<in> set ''0123456789'')"

text \<open>The number a string of decimal digits writes, leading zeros allowed.\<close>

definition decimal :: "string \<Rightarrow> nat" where
  "decimal ds = foldl (\<lambda>n c. 10 * n + (of_char c - 48)) 0 ds"

text \<open>
  \<open>int(ds)\<close> of a string of decimal digits. CPython refuses a string of more than
  \<open>sys.int_info.default_max_str_digits\<close> digits, leading zeros counted, with a
  \<open>ValueError\<close>.
\<close>

definition default_max_str_digits :: nat where
  "default_max_str_digits = 4300"

definition int_of :: "string \<Rightarrow> error + nat" where
  "int_of ds =
     (if default_max_str_digits < length ds then Inl ValueError else Inr (decimal ds))"

text \<open>The lower-case form of a character: the ASCII letters, by table.\<close>

definition lower :: "char \<Rightarrow> char" where
  "lower c =
     (case map_of (zip ''ABCDEFGHIJKLMNOPQRSTUVWXYZ'' ''abcdefghijklmnopqrstuvwxyz'') c of
        None \<Rightarrow> c
      | Some l \<Rightarrow> l)"

subsection \<open>The module constants\<close>

text \<open>
  \<open>CURRENT_YEAR = datetime.today().year\<close>: the year of a \<open>datetime\<close> lies between
  \<open>MINYEAR\<close> and \<open>MAXYEAR\<close>, 1 and 9999. \<open>year_number\<close> is the number of a year and
  \<open>Year\<close> the year of a number in that range.
\<close>

typedef calendar_year = "{1..9999::nat}"
  morphisms year_number Year
  by (rule exI [of _ 1], simp)

definition LICENSE_BLOB :: "calendar_year \<Rightarrow> string" where
  \<open>LICENSE_BLOB cy =
     ''Copyright (c) '' @ format_d (year_number cy) @ '' The Jaeger Authors.\<newline>'' @
     ''\<newline>'' @
     ''Licensed under the Apache License, Version 2.0 (the "License");\<newline>'' @
     ''you may not use this file except in compliance with the License.\<newline>'' @
     ''You may obtain a copy of the License at\<newline>'' @
     ''\<newline>'' @
     ''http://www.apache.org/licenses/LICENSE-2.0\<newline>'' @
     ''\<newline>'' @
     ''Unless required by applicable law or agreed to in writing, software\<newline>'' @
     ''distributed under the License is distributed on an "AS IS" BASIS,\<newline>'' @
     ''WITHOUT WARRANTIES OR CONDITIONS OF ANY KIND, either express or implied.\<newline>'' @
     ''See the License for the specific language governing permissions and\<newline>'' @
     ''limitations under the License.''\<close>

definition LICENSE_BLOB_LINES_GO :: "calendar_year \<Rightarrow> string list" where
  "LICENSE_BLOB_LINES_GO cy =
     map (\<lambda>l. strip (''// '' @ l) @ ''\<newline>'') (split (CHR ''\<newline>'') (LICENSE_BLOB cy))"

text \<open>
  \<open>COPYRIGHT_RE = re.compile(r'Copyright \(c\) (\d+)', re.I)\<close>. The pattern is a literal,
  compared character by character up to case (the flag folds every letter of the pattern),
  followed by a greedy, non-empty run of digits, which is group 1.
\<close>

fun match_literal :: "string \<Rightarrow> string \<Rightarrow> string option" where
  "match_literal [] s = Some s"
| "match_literal (p # ps) [] = None"
| "match_literal (p # ps) (c # cs) =
     (if lower c = lower p then match_literal ps cs else None)"

definition match_at :: "string \<Rightarrow> string option" where
  "match_at s =
     (case match_literal ''Copyright (c) '' s of
        None \<Rightarrow> None
      | Some rest \<Rightarrow>
          (let ds = takeWhile isdigit rest in if ds = [] then None else Some ds))"

text \<open>\<open>COPYRIGHT_RE.search(line)\<close>: the leftmost match; the result is \<open>m.group(1)\<close>.\<close>

fun COPYRIGHT_RE_search :: "string \<Rightarrow> string option" where
  "COPYRIGHT_RE_search [] = match_at []"
| "COPYRIGHT_RE_search (c # cs) =
     (case match_at (c # cs) of
        Some ds \<Rightarrow> Some ds
      | None \<Rightarrow> COPYRIGHT_RE_search cs)"

subsection \<open>update_go_license\<close>

text \<open>
  The local variables the scanning loop leaves behind; \<open>year\<close> is bound only when a line
  matched. \<open>changed\<close> is still \<open>False\<close> after the loop: the assignment to it is commented
  out.
\<close>

record locals =
  found :: bool
  jaeger :: bool
  year :: "nat option"

text \<open>
  The loop over \<open>lines[:5]\<close>. On the first line that matches, \<open>found\<close> and \<open>jaeger\<close>
  are set, then \<open>int\<close> is called, which may raise; both branches on the year end in
  \<open>break\<close> with nothing in between but comments.
\<close>

fun scan :: "calendar_year \<Rightarrow> string list \<Rightarrow> error + locals" where
  "scan cy [] = Inr \<lparr>found = False, jaeger = False, year = None\<rparr>"
| "scan cy (line # rest) =
     (case COPYRIGHT_RE_search line of
        None \<Rightarrow> scan cy rest
      | Some ds \<Rightarrow>
          (case int_of ds of
             Inl e \<Rightarrow> Inl e
           | Inr y \<Rightarrow>
               (if y = year_number cy
                then Inr \<lparr>found = True, jaeger = contains ''Jaeger'' line, year = Some y\<rparr>
                else Inr \<lparr>found = True, jaeger = contains ''Jaeger'' line, year = Some y\<rparr>)))"

text \<open>
  The argument of \<open>replace\<close> is a list of lines at one call site and a single string,
  \<open>LICENSE_BLOB_LINES_GO[0]\<close>, at the other.
\<close>

datatype header = Lines "string list" | Str string

text \<open>
  What a slice assignment inserts: the elements of the iterable, which for a string are
  its characters, each a string of length one.
\<close>

fun elements :: "header \<Rightarrow> string list" where
  "elements (Lines hs) = hs"
| "elements (Str s) = map (\<lambda>c. [c]) s"

text \<open>\<open>xs + header_lines\<close> for a list \<open>xs\<close>: a string on the right is a \<open>TypeError\<close>.\<close>

fun list_plus :: "string list \<Rightarrow> header \<Rightarrow> error + string list" where
  "list_plus xs (Lines hs) = Inr (xs @ hs)"
| "list_plus xs (Str s) = Inl TypeError"

fun replace :: "header \<Rightarrow> string list \<Rightarrow> error + string list" where
  "replace header_lines [] = Inl IndexError"
| "replace header_lines (l0 # rest) =
     (if contains ''Code generated by'' l0
      then (case list_plus [''\<newline>''] header_lines of
              Inl e \<Rightarrow> Inl e
            | Inr ins \<Rightarrow> Inr (l0 # ins @ rest))
      else Inr (elements header_lines @ l0 # rest))"

text \<open>Lines 37 to 76: from the lines read to the lines to write and \<open>changed\<close>.\<close>

definition update_lines ::
  "calendar_year \<Rightarrow> string list \<Rightarrow> error + (string list \<times> bool)" where
  "update_lines cy lines =
     (case scan cy (take 5 lines) of
        Inl e \<Rightarrow> Inl e
      | Inr st \<Rightarrow>
          (if \<not> found st
           then (case replace (Lines (LICENSE_BLOB_LINES_GO cy @ [''\<newline>''])) lines of
                   Inl e \<Rightarrow> Inl e
                 | Inr ls \<Rightarrow> Inr (ls, True))
           else if \<not> jaeger st
           then (case replace (Str (LICENSE_BLOB_LINES_GO cy ! 0)) lines of
                   Inl e \<Rightarrow> Inl e
                 | Inr ls \<Rightarrow> Inr (ls, True))
           else Inr (lines, False)))"

text \<open>
  Reading in text mode with universal newlines: \<open>CR LF\<close> and a \<open>CR\<close> alone are both
  handed over as \<open>LF\<close>.
\<close>

definition CR :: char where
  "CR = CHR 0x0D"

fun universal_newlines :: "string \<Rightarrow> string" where
  "universal_newlines [] = []"
| "universal_newlines [c] = (if c = CR then ''\<newline>'' else [c])"
| "universal_newlines (c # d # s) =
     (if c = CR
      then (if d = CHR ''\<newline>'' then CHR ''\<newline>'' # universal_newlines s
            else CHR ''\<newline>'' # universal_newlines (d # s))
      else c # universal_newlines (d # s))"

text \<open>A text cut after every line feed; the last line may lack one.\<close>

fun cut_lines :: "string \<Rightarrow> string list" where
  "cut_lines [] = []"
| "cut_lines (c # cs) =
     (if c = CHR ''\<newline>'' then [c] # cut_lines cs
      else (case cut_lines cs of
              [] \<Rightarrow> [[c]]
            | l # ls \<Rightarrow> (c # l) # ls))"

text \<open>\<open>list(f)\<close> for \<open>f = open(name)\<close>, from the text on disk.\<close>

definition readlines :: "string \<Rightarrow> string list" where
  "readlines content = cut_lines (universal_newlines content)"

text \<open>
  What one call leaves behind: the text of the file on disk, whether the name was
  printed, and the exception that ended the call, if any. Every exception of the body is
  raised before the file is opened for writing, and a file that is not written keeps its
  text, line ends included.
\<close>

record outcome =
  disk :: string
  printed :: bool
  raised :: "error option"

definition update_go_license :: "calendar_year \<Rightarrow> string \<Rightarrow> outcome" where
  "update_go_license cy content =
     (case update_lines cy (readlines content) of
        Inl e \<Rightarrow> \<lparr>disk = content, printed = False, raised = Some e\<rparr>
      | Inr (ls, changed) \<Rightarrow>
          (if changed then \<lparr>disk = concat ls, printed = True, raised = None\<rparr>
           else \<lparr>disk = content, printed = False, raised = None\<rparr>))"

subsection \<open>The comment line as the specification words it\<close>

text \<open>
  The specification derives a template line by trimming the trailing white space of the
  license line first and then putting the comment prefix in front. These two definitions
  follow those words, for comparison with \<open>LICENSE_BLOB_LINES_GO\<close>.
\<close>

definition rstrip :: "string \<Rightarrow> string" where
  "rstrip s = rev (dropWhile isspace (rev s))"

definition spec_comment_line :: "string \<Rightarrow> string" where
  "spec_comment_line l = ''// '' @ rstrip l @ ''\<newline>''"

section \<open>Auxiliary facts\<close>

subsection \<open>The license text and its comment lines\<close>

lemma split_no_sep: "d \<notin> set xs \<Longrightarrow> split d xs = [xs]"
  by (induction xs) (auto simp: Let_def)

lemma split_line: "d \<notin> set xs \<Longrightarrow> split d (xs @ d # ys) = xs # split d ys"
  by (induction xs) (auto simp: Let_def)

lemma digit_in: "k < 10 \<Longrightarrow> ''0123456789'' ! k \<in> set ''0123456789''"
  by (rule nth_mem) simp

lemma format_d_digits: "set (format_d n) \<subseteq> set ''0123456789''"
proof (induction n rule: format_d.induct)
  case (1 n)
  show ?case
  proof (cases "n < 10")
    case True
    then show ?thesis using digit_in [of n] by (subst format_d.simps) simp
  next
    case False
    have "n mod 10 < 10" by simp
    then show ?thesis using False 1 digit_in [of "n mod 10"] by (subst format_d.simps) simp
  qed
qed

lemma format_d_nonempty: "format_d n \<noteq> []"
  by (subst format_d.simps) simp

lemma format_d_isdigit: "c \<in> set (format_d n) \<Longrightarrow> isdigit c"
  using format_d_digits [of n] unfolding isdigit_def by blast

lemma format_d_no_nl: "CHR ''\<newline>'' \<notin> set (format_d n)"
proof
  assume "CHR ''\<newline>'' \<in> set (format_d n)"
  then have "isdigit (CHR ''\<newline>'')" by (rule format_d_isdigit)
  then show False by (simp add: isdigit_def)
qed

lemma LICENSE_BLOB_lines:
  \<open>split (CHR ''\<newline>'') (LICENSE_BLOB cy) =
     [''Copyright (c) '' @ format_d (year_number cy) @ '' The Jaeger Authors.'',
      '''',
      ''Licensed under the Apache License, Version 2.0 (the "License");'',
      ''you may not use this file except in compliance with the License.'',
      ''You may obtain a copy of the License at'',
      '''',
      ''http://www.apache.org/licenses/LICENSE-2.0'',
      '''',
      ''Unless required by applicable law or agreed to in writing, software'',
      ''distributed under the License is distributed on an "AS IS" BASIS,'',
      ''WITHOUT WARRANTIES OR CONDITIONS OF ANY KIND, either express or implied.'',
      ''See the License for the specific language governing permissions and'',
      ''limitations under the License.'']\<close>
proof -
  have b: \<open>LICENSE_BLOB cy =
     (''Copyright (c) '' @ format_d (year_number cy) @ '' The Jaeger Authors.'') @ CHR ''\<newline>'' #
     '''' @ CHR ''\<newline>'' #
     ''Licensed under the Apache License, Version 2.0 (the "License");'' @ CHR ''\<newline>'' #
     ''you may not use this file except in compliance with the License.'' @ CHR ''\<newline>'' #
     ''You may obtain a copy of the License at'' @ CHR ''\<newline>'' #
     '''' @ CHR ''\<newline>'' #
     ''http://www.apache.org/licenses/LICENSE-2.0'' @ CHR ''\<newline>'' #
     '''' @ CHR ''\<newline>'' #
     ''Unless required by applicable law or agreed to in writing, software'' @ CHR ''\<newline>'' #
     ''distributed under the License is distributed on an "AS IS" BASIS,'' @ CHR ''\<newline>'' #
     ''WITHOUT WARRANTIES OR CONDITIONS OF ANY KIND, either express or implied.'' @ CHR ''\<newline>'' #
     ''See the License for the specific language governing permissions and'' @ CHR ''\<newline>'' #
     ''limitations under the License.''\<close>
    by (simp add: LICENSE_BLOB_def)
  show ?thesis
    unfolding b
    by (simp only: split_line split_no_sep format_d_no_nl set_append Un_iff list.set
        insert_iff empty_iff char.inject simp_thms not_False_eq_True)
qed

lemma strip_id: "s \<noteq> [] \<Longrightarrow> \<not> isspace (hd s) \<Longrightarrow> \<not> isspace (last s) \<Longrightarrow> strip s = s"
proof -
  assume a: "s \<noteq> []" "\<not> isspace (hd s)" "\<not> isspace (last s)"
  from a(1,2) have 1: "dropWhile isspace s = s" by (cases s) simp_all
  from a(1,3) have "\<not> isspace (hd (rev s))" by (simp add: hd_rev)
  with a(1) have 2: "dropWhile isspace (rev s) = rev s"
    by (cases "rev s") simp_all
  show ?thesis by (simp add: strip_def 1 2)
qed

lemma comment_line:
  "l = [] \<or> \<not> isspace (last l) \<Longrightarrow>
   strip (''// '' @ l) = (if l = [] then ''//'' else ''// '' @ l)"
proof (cases "l = []")
  case True
  then show ?thesis by (simp add: strip_def isspace_def)
next
  case False
  assume "l = [] \<or> \<not> isspace (last l)"
  with False have 1: "\<not> isspace (last (''// '' @ l))" by simp
  have 2: "\<not> isspace (hd (''// '' @ l))" by (simp add: isspace_def)
  have 3: "''// '' @ l \<noteq> []" by simp
  have "strip (''// '' @ l) = ''// '' @ l" by (rule strip_id [OF 3 2 1])
  with False show ?thesis by simp
qed

lemma blob_lines_trimmed:
  "list_all (\<lambda>l. l = [] \<or> \<not> isspace (last l)) (split (CHR ''\<newline>'') (LICENSE_BLOB cy))"
proof -
  have nsp: "\<not> isspace (CHR ''.'')" "\<not> isspace (CHR '';'')" "\<not> isspace (CHR '','')"
    "\<not> isspace (CHR ''t'')" "\<not> isspace (CHR ''0'')" "\<not> isspace (CHR ''e'')"
    "\<not> isspace (CHR ''d'')"
    by (simp_all add: isspace_def)
  show ?thesis
    unfolding LICENSE_BLOB_lines
    by (simp add: nsp)
qed

lemma template_by_line:
  "LICENSE_BLOB_LINES_GO cy =
     map (\<lambda>l. if l = [] then ''//\<newline>'' else ''// '' @ l @ ''\<newline>'')
       (split (CHR ''\<newline>'') (LICENSE_BLOB cy))"
  unfolding LICENSE_BLOB_LINES_GO_def
proof (rule map_cong [OF refl])
  fix l assume "l \<in> set (split (CHR ''\<newline>'') (LICENSE_BLOB cy))"
  with blob_lines_trimmed [of cy] have "l = [] \<or> \<not> isspace (last l)"
    by (simp add: list_all_iff)
  then show "strip (''// '' @ l) @ ''\<newline>'' = (if l = [] then ''//\<newline>'' else ''// '' @ l @ ''\<newline>'')"
    by (simp add: comment_line del: append.simps)
qed

lemma template_lines:
  \<open>LICENSE_BLOB_LINES_GO cy =
     [''// Copyright (c) '' @ format_d (year_number cy) @ '' The Jaeger Authors.\<newline>'',
      ''//\<newline>'',
      ''// Licensed under the Apache License, Version 2.0 (the "License");\<newline>'',
      ''// you may not use this file except in compliance with the License.\<newline>'',
      ''// You may obtain a copy of the License at\<newline>'',
      ''//\<newline>'',
      ''// http://www.apache.org/licenses/LICENSE-2.0\<newline>'',
      ''//\<newline>'',
      ''// Unless required by applicable law or agreed to in writing, software\<newline>'',
      ''// distributed under the License is distributed on an "AS IS" BASIS,\<newline>'',
      ''// WITHOUT WARRANTIES OR CONDITIONS OF ANY KIND, either express or implied.\<newline>'',
      ''// See the License for the specific language governing permissions and\<newline>'',
      ''// limitations under the License.\<newline>'']\<close>
  unfolding template_by_line LICENSE_BLOB_lines
  by simp

lemma split_no_sep_in: "l \<in> set (split d s) \<Longrightarrow> d \<notin> set l"
proof (induction s arbitrary: l)
  case Nil
  then show ?case by simp
next
  case (Cons c cs)
  have ne: "split d cs \<noteq> []" by (cases cs) (simp_all add: Let_def)
  show ?case
  proof (cases "c = d")
    case True
    with Cons show ?thesis by auto
  next
    case False
    with Cons.prems have "l = c # hd (split d cs) \<or> l \<in> set (tl (split d cs))"
      by (simp add: Let_def)
    then show ?thesis
    proof
      assume l: "l = c # hd (split d cs)"
      from ne have "hd (split d cs) \<in> set (split d cs)" by simp
      with Cons.IH have "d \<notin> set (hd (split d cs))" by blast
      with l False show ?thesis by auto
    next
      assume "l \<in> set (tl (split d cs))"
      with ne have "l \<in> set (split d cs)" by (meson list.set_sel(2))
      with Cons.IH show ?thesis by blast
    qed
  qed
qed

lemma template_first:
  "LICENSE_BLOB_LINES_GO cy ! 0 = ''// Copyright (c) '' @ format_d (year_number cy) @ '' The Jaeger Authors.\<newline>''"
  by (simp add: template_lines)

lemma template_length: "length (LICENSE_BLOB_LINES_GO cy) = 13"
  by (simp add: template_by_line LICENSE_BLOB_lines)

lemma template_complete:
  "l \<in> set (LICENSE_BLOB_LINES_GO cy) \<Longrightarrow> \<exists>b. l = b @ ''\<newline>'' \<and> CHR ''\<newline>'' \<notin> set b"
proof -
  assume "l \<in> set (LICENSE_BLOB_LINES_GO cy)"
  then obtain x where x: "x \<in> set (split (CHR ''\<newline>'') (LICENSE_BLOB cy))"
    and l: "l = (if x = [] then ''//\<newline>'' else ''// '' @ x @ ''\<newline>'')"
    unfolding template_by_line by auto
  from x have n: "CHR ''\<newline>'' \<notin> set x" by (rule split_no_sep_in)
  show ?thesis
  proof (cases "x = []")
    case True
    with l have "l = ''//'' @ ''\<newline>'' \<and> CHR ''\<newline>'' \<notin> set ''//''" by simp
    then show ?thesis by blast
  next
    case False
    with l n have "l = (''// '' @ x) @ ''\<newline>'' \<and> CHR ''\<newline>'' \<notin> set (''// '' @ x)" by simp
    then show ?thesis by blast
  qed
qed

subsection \<open>The first template line is a copyright notice of the holder\<close>

lemma takeWhile_digits:
  "(\<And>c. c \<in> set ds \<Longrightarrow> isdigit c) \<Longrightarrow> takeWhile isdigit (ds @ CHR '' '' # s) = ds"
proof -
  assume "\<And>c. c \<in> set ds \<Longrightarrow> isdigit c"
  then have "takeWhile isdigit (ds @ CHR '' '' # s) = ds @ takeWhile isdigit (CHR '' '' # s)"
    by (rule takeWhile_append2)
  then show ?thesis by (simp add: isdigit_def)
qed

lemma match_at_notice:
  "(\<And>c. c \<in> set ds \<Longrightarrow> isdigit c) \<Longrightarrow> ds \<noteq> [] \<Longrightarrow>
   match_at (''Copyright (c) '' @ ds @ CHR '' '' # s) = Some ds"
proof -
  assume d: "\<And>c. c \<in> set ds \<Longrightarrow> isdigit c" and n: "ds \<noteq> []"
  have "takeWhile isdigit (ds @ CHR '' '' # s) = ds" using d by (rule takeWhile_digits)
  with n show ?thesis by (simp add: match_at_def)
qed

lemma search_notice:
  assumes "\<And>c. c \<in> set ds \<Longrightarrow> isdigit c" and "ds \<noteq> []"
  shows "COPYRIGHT_RE_search (''// Copyright (c) '' @ ds @ CHR '' '' # s) = Some ds"
proof -
  have 1: "match_at (CHR ''/'' # t) = None" for t by (simp add: match_at_def lower_def)
  have 2: "match_at (CHR '' '' # t) = None" for t by (simp add: match_at_def lower_def)
  have "COPYRIGHT_RE_search (''// Copyright (c) '' @ ds @ CHR '' '' # s) =
      COPYRIGHT_RE_search (''Copyright (c) '' @ ds @ CHR '' '' # s)"
    by (simp add: 1 2)
  also have "\<dots> = Some ds"
    using match_at_notice [OF assms, of s] by simp
  finally show ?thesis .
qed

lemma search_first:
  "COPYRIGHT_RE_search (LICENSE_BLOB_LINES_GO cy ! 0) = Some (format_d (year_number cy))"
proof -
  have "COPYRIGHT_RE_search (''// Copyright (c) '' @ format_d (year_number cy) @
      CHR '' '' # ''The Jaeger Authors.\<newline>'') = Some (format_d (year_number cy))"
    by (rule search_notice) (erule format_d_isdigit, rule format_d_nonempty)
  then show ?thesis by (simp add: template_first del: COPYRIGHT_RE_search.simps)
qed

lemma contains_append: "contains sub ys \<Longrightarrow> contains sub (xs @ ys)"
  by (induction xs) simp_all

lemma jaeger_first: "contains ''Jaeger'' (LICENSE_BLOB_LINES_GO cy ! 0)"
proof -
  have "contains ''Jaeger'' ('' The Jaeger Authors.\<newline>'')" by simp
  then have "contains ''Jaeger'' ((''// Copyright (c) '' @ format_d (year_number cy)) @ '' The Jaeger Authors.\<newline>'')"
    by (rule contains_append)
  then show ?thesis by (simp add: template_first)
qed

subsection \<open>Cutting a text into lines\<close>

lemma concat_cut_lines: "concat (cut_lines s) = s"
  by (induction s) (auto split: list.splits)

lemma cut_lines_line:
  "CHR ''\<newline>'' \<notin> set b \<Longrightarrow> cut_lines (b @ CHR ''\<newline>'' # s) = (b @ ''\<newline>'') # cut_lines s"
  by (induction b) auto

lemma cut_lines_lines:
  "(\<And>l. l \<in> set T \<Longrightarrow> \<exists>b. l = b @ ''\<newline>'' \<and> CHR ''\<newline>'' \<notin> set b) \<Longrightarrow>
   cut_lines (concat T @ s) = T @ cut_lines s"
proof (induction T)
  case Nil
  then show ?case by simp
next
  case (Cons l T)
  from Cons.prems [of l] obtain b where b: "l = b @ ''\<newline>''" "CHR ''\<newline>'' \<notin> set b"
    by auto
  have "cut_lines (concat (l # T) @ s) = cut_lines (b @ CHR ''\<newline>'' # (concat T @ s))"
    by (simp add: b)
  also have "\<dots> = l # cut_lines (concat T @ s)"
    by (simp add: cut_lines_line b)
  also have "cut_lines (concat T @ s) = T @ cut_lines s"
    by (rule Cons.IH) (rule Cons.prems, simp)
  finally show ?case by simp
qed

text \<open>The first line read is complete, or it is the whole text.\<close>

lemma cut_lines_first:
  "cut_lines s = l0 # rest \<Longrightarrow>
   (\<exists>b. l0 = b @ ''\<newline>'' \<and> CHR ''\<newline>'' \<notin> set b) \<or>
   (rest = [] \<and> CHR ''\<newline>'' \<notin> set l0 \<and> l0 \<noteq> [])"
proof (induction s arbitrary: l0 rest)
  case Nil
  then show ?case by simp
next
  case (Cons c cs)
  show ?case
  proof (cases "c = CHR ''\<newline>''")
    case True
    with Cons.prems have "l0 = [] @ ''\<newline>''" by simp
    then show ?thesis by fastforce
  next
    case False
    show ?thesis
    proof (cases "cut_lines cs")
      case Nil
      with False Cons.prems show ?thesis by auto
    next
      case (Cons l ls)
      with False Cons.prems have l0: "l0 = c # l" "rest = ls" by auto
      from Cons.IH [OF Cons] show ?thesis
      proof
        assume "\<exists>b. l = b @ ''\<newline>'' \<and> CHR ''\<newline>'' \<notin> set b"
        then obtain b where "l = b @ ''\<newline>''" "CHR ''\<newline>'' \<notin> set b" by auto
        with l0 False have "l0 = (c # b) @ ''\<newline>'' \<and> CHR ''\<newline>'' \<notin> set (c # b)" by auto
        then show ?thesis by blast
      next
        assume "ls = [] \<and> CHR ''\<newline>'' \<notin> set l \<and> l \<noteq> []"
        with l0 False show ?thesis by auto
      qed
    qed
  qed
qed

subsection \<open>A line feed at the end of a line creates no match\<close>

lemma match_literal_append_Some:
  "match_literal p s = Some r \<Longrightarrow> match_literal p (s @ t) = Some (r @ t)"
  by (induction p s rule: match_literal.induct) (auto split: if_splits)

lemma match_literal_append_None:
  "match_literal p s = None \<Longrightarrow> lower c \<notin> lower ` set p \<Longrightarrow> match_literal p (s @ [c]) = None"
  by (induction p s rule: match_literal.induct) (auto split: if_splits)

lemma nl_not_in_pattern: "lower (CHR ''\<newline>'') \<notin> lower ` set ''Copyright (c) ''"
  by (simp add: lower_def)

lemma match_at_snoc_nl: "match_at s = None \<Longrightarrow> match_at (s @ ''\<newline>'') = None"
proof (cases "match_literal ''Copyright (c) '' s")
  case None
  then have "match_literal ''Copyright (c) '' (s @ ''\<newline>'') = None"
    by (rule match_literal_append_None) (rule nl_not_in_pattern)
  then show ?thesis by (simp add: match_at_def)
next
  case (Some r)
  assume "match_at s = None"
  with Some have r: "takeWhile isdigit r = []" by (simp add: match_at_def Let_def split: if_splits)
  have "takeWhile isdigit (r @ ''\<newline>'') = []"
  proof (cases r)
    case Nil
    then show ?thesis by (simp add: isdigit_def)
  next
    case (Cons x xs)
    with r show ?thesis by (simp split: if_splits)
  qed
  moreover from Some have "match_literal ''Copyright (c) '' (s @ ''\<newline>'') = Some (r @ ''\<newline>'')"
    by (rule match_literal_append_Some)
  ultimately show ?thesis by (simp add: match_at_def)
qed

lemma search_nl: "COPYRIGHT_RE_search ''\<newline>'' = None"
  by (simp add: match_at_def lower_def)

lemma search_snoc_nl:
  "COPYRIGHT_RE_search l = None \<Longrightarrow> COPYRIGHT_RE_search (l @ ''\<newline>'') = None"
proof (induction l)
  case Nil
  then show ?case using search_nl by simp
next
  case (Cons c cs)
  from Cons.prems have m: "match_at (c # cs) = None" and s: "COPYRIGHT_RE_search cs = None"
    by (auto split: option.splits)
  from m have "match_at ((c # cs) @ ''\<newline>'') = None" by (rule match_at_snoc_nl)
  with Cons.IH [OF s] show ?case by simp
qed

subsection \<open>What the pattern matches\<close>

lemma match_literal_Some:
  "match_literal p s = Some r \<Longrightarrow> \<exists>m. s = m @ r \<and> map lower m = map lower p"
proof (induction p s rule: match_literal.induct)
  case (1 s)
  then show ?case by simp
next
  case (2 p ps)
  then show ?case by simp
next
  case (3 p ps c cs)
  from "3.prems" have eq: "lower c = lower p" and r: "match_literal ps cs = Some r"
    by (auto split: if_splits)
  from "3.IH" [OF eq r] obtain m where "cs = m @ r" "map lower m = map lower ps" by auto
  with eq have "c # cs = (c # m) @ r \<and> map lower (c # m) = map lower (p # ps)" by simp
  then show ?case by blast
qed

lemma match_literal_prefix:
  "map lower m = map lower p \<Longrightarrow> match_literal p (m @ r) = Some r"
proof (induction p arbitrary: m)
  case Nil
  then show ?case by simp
next
  case (Cons p ps)
  then obtain c cs where m: "m = c # cs" by (cases m) auto
  with Cons.prems have "lower c = lower p" "map lower cs = map lower ps" by simp_all
  with Cons.IH [of cs] m show ?case by simp
qed

lemma pattern_lower: "map lower ''Copyright (c) '' = ''copyright (c) ''"
  by (simp add: lower_def)

lemma match_at_D:
  assumes "match_at s \<noteq> None"
  shows "\<exists>m d post. s = m @ d # post \<and> map lower m = ''copyright (c) '' \<and> isdigit d"
proof (cases "match_literal ''Copyright (c) '' s")
  case None
  then have "match_at s = None" by (simp add: match_at_def)
  with assms show ?thesis by simp
next
  case (Some r)
  with assms have t: "takeWhile isdigit r \<noteq> []"
    by (simp add: match_at_def Let_def split: if_splits)
  then obtain d post where d: "r = d # post" "isdigit d"
    by (cases r) (simp_all split: if_splits)
  from match_literal_Some [OF Some] obtain m
    where m: "s = m @ r" "map lower m = map lower ''Copyright (c) ''" by (elim exE conjE)
  have p: "map lower m = ''copyright (c) ''"
    by (rule trans [OF m(2) pattern_lower])
  have e: "s = m @ d # post" unfolding m(1) d(1) by (rule refl)
  show ?thesis
    by (rule exI [of _ m], rule exI [of _ d], rule exI [of _ post]) (intro conjI e p d(2))
qed

lemma match_at_I:
  assumes s: "s = m @ d # post"
    and m: "map lower m = ''copyright (c) ''" and d: "isdigit d"
  shows "match_at s \<noteq> None"
proof -
  from m have "map lower m = map lower ''Copyright (c) ''" by (simp only: pattern_lower)
  then have "match_literal ''Copyright (c) '' (m @ d # post) = Some (d # post)"
    by (rule match_literal_prefix)
  with d show "match_at s \<noteq> None" by (simp add: match_at_def s)
qed

lemma search_iff_match_at:
  "COPYRIGHT_RE_search l \<noteq> None \<longleftrightarrow> (\<exists>pre s. l = pre @ s \<and> match_at s \<noteq> None)"
proof (induction l)
  case Nil
  then show ?case by simp
next
  case (Cons c cs)
  show ?case
  proof
    assume a: "COPYRIGHT_RE_search (c # cs) \<noteq> None"
    show "\<exists>pre s. c # cs = pre @ s \<and> match_at s \<noteq> None"
    proof (cases "match_at (c # cs)")
      case None
      with a have "COPYRIGHT_RE_search cs \<noteq> None" by simp
      with Cons.IH obtain pre s where "cs = pre @ s" "match_at s \<noteq> None" by auto
      then have "c # cs = (c # pre) @ s \<and> match_at s \<noteq> None" by simp
      then show ?thesis by blast
    next
      case (Some ds)
      then have "c # cs = [] @ (c # cs) \<and> match_at (c # cs) \<noteq> None" by simp
      then show ?thesis by blast
    qed
  next
    assume "\<exists>pre s. c # cs = pre @ s \<and> match_at s \<noteq> None"
    then obtain pre s where ps: "c # cs = pre @ s" "match_at s \<noteq> None" by auto
    show "COPYRIGHT_RE_search (c # cs) \<noteq> None"
    proof (cases pre)
      case Nil
      with ps show ?thesis by (auto split: option.splits)
    next
      case (Cons x xs)
      with ps have "cs = xs @ s" by simp
      with ps(2) Cons.IH have "COPYRIGHT_RE_search cs \<noteq> None" by blast
      then show ?thesis by (auto split: option.splits)
    qed
  qed
qed

lemma search_iff:
  "COPYRIGHT_RE_search l \<noteq> None \<longleftrightarrow>
     (\<exists>pre m d post. l = pre @ m @ d # post \<and> map lower m = ''copyright (c) '' \<and> isdigit d)"
proof
  assume "COPYRIGHT_RE_search l \<noteq> None"
  then obtain pre s where l: "l = pre @ s" and s: "match_at s \<noteq> None"
    unfolding search_iff_match_at by (elim exE conjE)
  from match_at_D [OF s] obtain m d post
    where e: "s = m @ d # post" and p: "map lower m = ''copyright (c) ''" and d: "isdigit d"
    by (elim exE conjE)
  have "l = pre @ m @ d # post" unfolding l e by (rule refl)
  then show "\<exists>pre m d post. l = pre @ m @ d # post \<and> map lower m = ''copyright (c) '' \<and> isdigit d"
    using p d by (intro exI conjI)
next
  assume "\<exists>pre m d post. l = pre @ m @ d # post \<and> map lower m = ''copyright (c) '' \<and> isdigit d"
  then obtain pre m d post
    where l: "l = pre @ m @ d # post" and p: "map lower m = ''copyright (c) ''" and d: "isdigit d"
    by (elim exE conjE)
  have "match_at (m @ d # post) \<noteq> None" by (rule match_at_I [OF refl p d])
  with l have "\<exists>pre s. l = pre @ s \<and> match_at s \<noteq> None" by (intro exI conjI)
  then show "COPYRIGHT_RE_search l \<noteq> None" unfolding search_iff_match_at .
qed

subsection \<open>Lines read after a header\<close>

lemma concat_chars: "concat (map (\<lambda>c. [c]) s) = s"
  by (induction s) simp_all

lemma template_Cons:
  "LICENSE_BLOB_LINES_GO cy = (LICENSE_BLOB_LINES_GO cy ! 0) # tl (LICENSE_BLOB_LINES_GO cy)"
  using template_length [of cy] by (cases "LICENSE_BLOB_LINES_GO cy") simp_all

lemma first_complete:
  "\<exists>b. LICENSE_BLOB_LINES_GO cy ! 0 = b @ ''\<newline>'' \<and> CHR ''\<newline>'' \<notin> set b"
proof (rule template_complete)
  show "LICENSE_BLOB_LINES_GO cy ! 0 \<in> set (LICENSE_BLOB_LINES_GO cy)"
    by (subst (2) template_Cons) simp
qed

lemma read_full:
  "cut_lines (concat (LICENSE_BLOB_LINES_GO cy) @ CHR ''\<newline>'' # s) =
     LICENSE_BLOB_LINES_GO cy @ ''\<newline>'' # cut_lines s"
proof -
  have "cut_lines (concat (LICENSE_BLOB_LINES_GO cy) @ CHR ''\<newline>'' # s) =
      LICENSE_BLOB_LINES_GO cy @ cut_lines (CHR ''\<newline>'' # s)"
    by (rule cut_lines_lines) (rule template_complete)
  then show ?thesis by simp
qed

lemma read_single:
  "cut_lines (LICENSE_BLOB_LINES_GO cy ! 0 @ s) = (LICENSE_BLOB_LINES_GO cy ! 0) # cut_lines s"
proof -
  from first_complete [of cy] obtain b
    where b: "LICENSE_BLOB_LINES_GO cy ! 0 = b @ ''\<newline>''" "CHR ''\<newline>'' \<notin> set b"
    by auto
  from b(2) have "cut_lines (b @ CHR ''\<newline>'' # s) = (b @ ''\<newline>'') # cut_lines s"
    by (rule cut_lines_line)
  then show ?thesis by (simp add: b(1))
qed

lemma read_marker_complete:
  assumes "CHR ''\<newline>'' \<notin> set b"
  shows "cut_lines ((b @ ''\<newline>'') @ ''\<newline>'' @ concat (LICENSE_BLOB_LINES_GO cy) @ ''\<newline>'' @ s) =
     (b @ ''\<newline>'') # ''\<newline>'' # LICENSE_BLOB_LINES_GO cy @ ''\<newline>'' # cut_lines s"
proof -
  have "cut_lines (b @ CHR ''\<newline>'' # (CHR ''\<newline>'' # concat (LICENSE_BLOB_LINES_GO cy) @ CHR ''\<newline>'' # s)) =
      (b @ ''\<newline>'') # cut_lines (CHR ''\<newline>'' # concat (LICENSE_BLOB_LINES_GO cy) @ CHR ''\<newline>'' # s)"
    using assms by (rule cut_lines_line)
  then show ?thesis by (simp add: read_full)
qed

lemma read_marker_incomplete:
  assumes "CHR ''\<newline>'' \<notin> set l0"
  shows "cut_lines (l0 @ ''\<newline>'' @ concat (LICENSE_BLOB_LINES_GO cy) @ ''\<newline>'') =
     (l0 @ ''\<newline>'') # LICENSE_BLOB_LINES_GO cy @ [''\<newline>'']"
proof -
  have "cut_lines (l0 @ CHR ''\<newline>'' # (concat (LICENSE_BLOB_LINES_GO cy) @ CHR ''\<newline>'' # [])) =
      (l0 @ ''\<newline>'') # cut_lines (concat (LICENSE_BLOB_LINES_GO cy) @ CHR ''\<newline>'' # [])"
    using assms by (rule cut_lines_line)
  then show ?thesis by (simp add: read_full)
qed

lemma cut_lines_rest:
  assumes "cut_lines s = (b @ ''\<newline>'') # rest" "CHR ''\<newline>'' \<notin> set b"
  shows "cut_lines (concat rest) = rest"
proof -
  have "s = concat (cut_lines s)" by (simp add: concat_cut_lines)
  then have "s = b @ CHR ''\<newline>'' # concat rest" by (simp add: assms(1))
  then have "cut_lines s = (b @ ''\<newline>'') # cut_lines (concat rest)"
    using cut_lines_line [OF assms(2)] by simp
  with assms(1) show ?thesis by simp
qed

lemma shift:
  fixes L L' :: "string list"
  assumes "L' = ins @ L"
  shows "length L' = length L + length ins \<and> drop (5 + length ins) L' = drop 5 L"
  using assms by simp

subsection \<open>Universal newlines\<close>

lemma universal_no_CR: "CR \<notin> set (universal_newlines s)"
  by (induction s rule: universal_newlines.induct) (auto simp: CR_def)

lemma universal_id: "CR \<notin> set s \<Longrightarrow> universal_newlines s = s"
  by (induction s rule: universal_newlines.induct) auto

lemma universal_Nil: "universal_newlines s = [] \<Longrightarrow> s = []"
  by (induction s rule: universal_newlines.induct) (auto split: if_splits)

lemma concat_readlines: "concat (readlines s) = universal_newlines s"
  by (simp add: readlines_def concat_cut_lines)

lemma readlines_no_CR: "CR \<notin> set s \<Longrightarrow> readlines s = cut_lines s"
  by (simp add: readlines_def universal_id)

lemma readlines_Nil: "readlines s = [] \<Longrightarrow> s = []"
  using concat_readlines [of s] by (simp add: universal_Nil)

lemma lines_no_CR:
  assumes "readlines content = l0 # rest"
  shows "CR \<notin> set l0" and "CR \<notin> set (concat rest)"
proof -
  have "set (concat (l0 # rest)) = set (universal_newlines content)"
    using concat_readlines [of content] assms by simp
  then have "CR \<notin> set (concat (l0 # rest))" by (simp only: universal_no_CR not_False_eq_True)
  then show "CR \<notin> set l0" and "CR \<notin> set (concat rest)" by simp_all
qed

lemma format_d_no_CR: "CR \<notin> set (format_d n)"
proof
  assume "CR \<in> set (format_d n)"
  then have "isdigit CR" by (rule format_d_isdigit)
  then show False by (simp add: isdigit_def CR_def)
qed

lemma template_no_CR: "CR \<notin> set (concat (LICENSE_BLOB_LINES_GO cy))"
  using format_d_no_CR [of "year_number cy"] by (simp add: template_lines CR_def)

lemma first_no_CR: "CR \<notin> set (LICENSE_BLOB_LINES_GO cy ! 0)"
proof -
  have "set (LICENSE_BLOB_LINES_GO cy ! 0) \<subseteq> set (concat (LICENSE_BLOB_LINES_GO cy))"
    by (subst (2) template_Cons) simp
  with template_no_CR [of cy] show ?thesis by blast
qed

subsection \<open>The digits of the current year\<close>

lemma format_d_length: "0 < k \<Longrightarrow> n < 10 ^ k \<Longrightarrow> length (format_d n) \<le> k"
proof (induction k arbitrary: n)
  case 0
  then show ?case by simp
next
  case (Suc k)
  show ?case
  proof (cases "n < 10")
    case True
    then show ?thesis by (subst format_d.simps) simp
  next
    case False
    with Suc.prems have k: "0 < k" by (cases k) simp_all
    from Suc.prems have "n div 10 < 10 ^ k" by (simp add: less_mult_imp_div_less mult.commute)
    with Suc.IH [OF k] have "length (format_d (n div 10)) \<le> k" by blast
    with False show ?thesis by (subst format_d.simps) simp
  qed
qed

lemma year_digits:
  "int_of (format_d (year_number cy)) = Inr (decimal (format_d (year_number cy)))"
proof -
  have "year_number cy < 10 ^ 4" using year_number [of cy] by simp
  then have "length (format_d (year_number cy)) \<le> 4" by (intro format_d_length) simp_all
  then show ?thesis by (simp add: int_of_def default_max_str_digits_def)
qed

subsection \<open>The scanning loop\<close>

lemma scan_find:
  "scan cy ls =
     (case find (\<lambda>l. COPYRIGHT_RE_search l \<noteq> None) ls of
        None \<Rightarrow> Inr \<lparr>found = False, jaeger = False, year = None\<rparr>
      | Some l \<Rightarrow>
          (case int_of (the (COPYRIGHT_RE_search l)) of
             Inl e \<Rightarrow> Inl e
           | Inr y \<Rightarrow> Inr \<lparr>found = True, jaeger = contains ''Jaeger'' l, year = Some y\<rparr>))"
  by (induction ls) (auto split: option.splits sum.splits)

lemma scan_first_match:
  assumes "find (\<lambda>l. COPYRIGHT_RE_search l \<noteq> None) ls = Some line"
    and "COPYRIGHT_RE_search line = Some ds"
  shows "scan cy ls =
     (if default_max_str_digits < length ds then Inl ValueError
      else Inr \<lparr>found = True, jaeger = contains ''Jaeger'' line, year = Some (decimal ds)\<rparr>)"
  using assms by (simp add: scan_find int_of_def)

lemma not_found_no_match:
  "scan cy ls = Inr st \<Longrightarrow> \<not> found st \<Longrightarrow> l \<in> set ls \<Longrightarrow> COPYRIGHT_RE_search l = None"
  by (induction ls) (auto split: option.splits sum.splits if_splits)

lemma scan_hit:
  "COPYRIGHT_RE_search l = Some ds \<Longrightarrow> int_of ds = Inr y \<Longrightarrow>
   scan cy (l # rest) = Inr \<lparr>found = True, jaeger = contains ''Jaeger'' l, year = Some y\<rparr>"
  by simp

lemma scan_skip:
  "(\<And>l. l \<in> set pre \<Longrightarrow> COPYRIGHT_RE_search l = None) \<Longrightarrow> scan cy (pre @ ls) = scan cy ls"
  by (induction pre) simp_all

subsection \<open>The outcomes of update_go_license, case by case\<close>

lemma update_lines_raise: "scan cy (take 5 ls) = Inl e \<Longrightarrow> update_lines cy ls = Inl e"
  by (simp add: update_lines_def)

lemma update_lines_empty: "update_lines cy [] = Inl IndexError"
  by (simp add: update_lines_def)

lemma update_lines_noop:
  "scan cy (take 5 ls) = Inr st \<Longrightarrow> found st \<Longrightarrow> jaeger st \<Longrightarrow>
   update_lines cy ls = Inr (ls, False)"
  by (simp add: update_lines_def)

lemma update_lines_full:
  "scan cy (take 5 (l0 # rest)) = Inr st \<Longrightarrow> \<not> found st \<Longrightarrow>
   \<not> contains ''Code generated by'' l0 \<Longrightarrow>
   update_lines cy (l0 # rest) =
     Inr (LICENSE_BLOB_LINES_GO cy @ [''\<newline>''] @ l0 # rest, True)"
  by (simp add: update_lines_def)

lemma update_lines_full_marker:
  "scan cy (take 5 (l0 # rest)) = Inr st \<Longrightarrow> \<not> found st \<Longrightarrow>
   contains ''Code generated by'' l0 \<Longrightarrow>
   update_lines cy (l0 # rest) =
     Inr (l0 # [''\<newline>''] @ LICENSE_BLOB_LINES_GO cy @ [''\<newline>''] @ rest, True)"
  by (simp add: update_lines_def)

lemma update_lines_single:
  "scan cy (take 5 (l0 # rest)) = Inr st \<Longrightarrow> found st \<Longrightarrow> \<not> jaeger st \<Longrightarrow>
   \<not> contains ''Code generated by'' l0 \<Longrightarrow>
   update_lines cy (l0 # rest) =
     Inr (map (\<lambda>c. [c]) (LICENSE_BLOB_LINES_GO cy ! 0) @ l0 # rest, True)"
  by (simp add: update_lines_def)

lemma update_lines_single_marker:
  "scan cy (take 5 (l0 # rest)) = Inr st \<Longrightarrow> found st \<Longrightarrow> \<not> jaeger st \<Longrightarrow>
   contains ''Code generated by'' l0 \<Longrightarrow>
   update_lines cy (l0 # rest) = Inl TypeError"
  by (simp add: update_lines_def)

lemma run_raise:
  "scan cy (take 5 (readlines content)) = Inl e \<Longrightarrow>
   update_go_license cy content = \<lparr>disk = content, printed = False, raised = Some e\<rparr>"
  by (simp add: update_go_license_def update_lines_raise)

lemma run_empty:
  "update_go_license cy [] = \<lparr>disk = [], printed = False, raised = Some IndexError\<rparr>"
  by (simp add: update_go_license_def readlines_def update_lines_empty)

lemma run_noop:
  "scan cy (take 5 (readlines content)) = Inr st \<Longrightarrow> found st \<Longrightarrow> jaeger st \<Longrightarrow>
   update_go_license cy content = \<lparr>disk = content, printed = False, raised = None\<rparr>"
  by (simp add: update_go_license_def update_lines_noop)

lemma run_full:
  assumes "readlines content = l0 # rest"
    and "scan cy (take 5 (readlines content)) = Inr st"
    and "\<not> found st"
    and "\<not> contains ''Code generated by'' l0"
  shows "update_go_license cy content =
     \<lparr>disk = concat (LICENSE_BLOB_LINES_GO cy) @ ''\<newline>'' @ universal_newlines content,
      printed = True, raised = None\<rparr>"
proof -
  have "concat (l0 # rest) = universal_newlines content"
    using concat_readlines [of content] assms(1) by simp
  moreover from assms have "update_lines cy (l0 # rest) =
      Inr (LICENSE_BLOB_LINES_GO cy @ [''\<newline>''] @ l0 # rest, True)"
    by (intro update_lines_full [of cy l0 rest st]) simp_all
  ultimately show ?thesis
    by (simp add: update_go_license_def assms(1))
qed

lemma run_full_marker:
  assumes "readlines content = l0 # rest"
    and "scan cy (take 5 (readlines content)) = Inr st"
    and "\<not> found st"
    and "contains ''Code generated by'' l0"
  shows "update_go_license cy content =
     \<lparr>disk = l0 @ ''\<newline>'' @ concat (LICENSE_BLOB_LINES_GO cy) @ ''\<newline>'' @ concat rest,
      printed = True, raised = None\<rparr>"
proof -
  from assms have "update_lines cy (l0 # rest) =
      Inr (l0 # [''\<newline>''] @ LICENSE_BLOB_LINES_GO cy @ [''\<newline>''] @ rest, True)"
    by (intro update_lines_full_marker [of cy l0 rest st]) simp_all
  then show ?thesis
    by (simp add: update_go_license_def assms(1))
qed

lemma run_single:
  assumes "readlines content = l0 # rest"
    and "scan cy (take 5 (readlines content)) = Inr st"
    and "found st"
    and "\<not> jaeger st"
    and "\<not> contains ''Code generated by'' l0"
  shows "update_go_license cy content =
     \<lparr>disk = LICENSE_BLOB_LINES_GO cy ! 0 @ universal_newlines content,
      printed = True, raised = None\<rparr>"
proof -
  have "concat (l0 # rest) = universal_newlines content"
    using concat_readlines [of content] assms(1) by simp
  moreover from assms have "update_lines cy (l0 # rest) =
      Inr (map (\<lambda>c. [c]) (LICENSE_BLOB_LINES_GO cy ! 0) @ l0 # rest, True)"
    by (intro update_lines_single [of cy l0 rest st]) simp_all
  ultimately show ?thesis
    by (simp add: update_go_license_def assms(1) concat_chars)
qed

lemma run_single_marker:
  assumes "readlines content = l0 # rest"
    and "scan cy (take 5 (readlines content)) = Inr st"
    and "found st"
    and "\<not> jaeger st"
    and "contains ''Code generated by'' l0"
  shows "update_go_license cy content =
     \<lparr>disk = content, printed = False, raised = Some TypeError\<rparr>"
proof -
  from assms have "update_lines cy (l0 # rest) = Inl TypeError"
    by (intro update_lines_single_marker [of cy l0 rest st]) simp_all
  then show ?thesis
    by (simp add: update_go_license_def assms(1))
qed

lemma second_run:
  assumes r: "readlines t = pre @ (LICENSE_BLOB_LINES_GO cy ! 0) # post"
    and n: "length pre \<le> 4"
    and m: "\<And>l. l \<in> set pre \<Longrightarrow> COPYRIGHT_RE_search l = None"
  shows "update_go_license cy t = \<lparr>disk = t, printed = False, raised = None\<rparr>"
proof -
  let ?st = "\<lparr>found = True, jaeger = contains ''Jaeger'' (LICENSE_BLOB_LINES_GO cy ! 0),
      year = Some (decimal (format_d (year_number cy)))\<rparr>"
  from n have "take 5 (readlines t) =
      pre @ (LICENSE_BLOB_LINES_GO cy ! 0) # take (4 - length pre) post"
    by (simp add: r take_Cons')
  then have "scan cy (take 5 (readlines t)) =
      scan cy ((LICENSE_BLOB_LINES_GO cy ! 0) # take (4 - length pre) post)"
    using m by (simp add: scan_skip)
  also have "\<dots> = Inr ?st"
    by (rule scan_hit [OF search_first year_digits])
  finally have "scan cy (take 5 (readlines t)) = Inr ?st" .
  then show ?thesis by (rule run_noop) (simp_all add: jaeger_first)
qed

text \<open>What is read back after each kind of rewrite.\<close>

lemma reread_full:
  assumes "readlines content = l0 # rest"
    and "scan cy (take 5 (readlines content)) = Inr st"
    and "\<not> found st"
    and "\<not> contains ''Code generated by'' l0"
  shows "readlines (disk (update_go_license cy content)) =
     LICENSE_BLOB_LINES_GO cy @ ''\<newline>'' # readlines content"
proof -
  let ?d = "concat (LICENSE_BLOB_LINES_GO cy) @ CHR ''\<newline>'' # universal_newlines content"
  have "CR \<notin> set ?d"
    using template_no_CR [of cy] universal_no_CR [of content] by (simp add: CR_def)
  then have "readlines ?d = cut_lines ?d" by (rule readlines_no_CR)
  then show ?thesis
    by (simp add: run_full [OF assms] read_full readlines_def [of content])
qed

lemma reread_single:
  assumes "readlines content = l0 # rest"
    and "scan cy (take 5 (readlines content)) = Inr st"
    and "found st"
    and "\<not> jaeger st"
    and "\<not> contains ''Code generated by'' l0"
  shows "readlines (disk (update_go_license cy content)) =
     (LICENSE_BLOB_LINES_GO cy ! 0) # readlines content"
proof -
  let ?d = "LICENSE_BLOB_LINES_GO cy ! 0 @ universal_newlines content"
  have "CR \<notin> set ?d"
    using first_no_CR [of cy] universal_no_CR [of content] by simp
  then have "readlines ?d = cut_lines ?d" by (rule readlines_no_CR)
  then show ?thesis
    by (simp add: run_single [OF assms] read_single readlines_def [of content])
qed

lemma reread_full_marker:
  assumes "readlines content = l0 # rest"
    and "scan cy (take 5 (readlines content)) = Inr st"
    and "\<not> found st"
    and "contains ''Code generated by'' l0"
  shows "readlines (disk (update_go_license cy content)) =
     (if CHR ''\<newline>'' \<in> set l0
      then l0 # ''\<newline>'' # LICENSE_BLOB_LINES_GO cy @ ''\<newline>'' # rest
      else (l0 @ ''\<newline>'') # LICENSE_BLOB_LINES_GO cy @ [''\<newline>''])"
proof -
  let ?d = "l0 @ ''\<newline>'' @ concat (LICENSE_BLOB_LINES_GO cy) @ ''\<newline>'' @ concat rest"
  have c: "cut_lines (universal_newlines content) = l0 # rest"
    using assms(1) by (simp add: readlines_def)
  have "CR \<notin> set ?d"
    using lines_no_CR [OF assms(1)] template_no_CR [of cy] by (simp add: CR_def)
  then have d: "readlines ?d = cut_lines ?d" by (rule readlines_no_CR)
  from cut_lines_first [OF c] show ?thesis
  proof
    assume "\<exists>b. l0 = b @ ''\<newline>'' \<and> CHR ''\<newline>'' \<notin> set b"
    then obtain b where b: "l0 = b @ ''\<newline>''" "CHR ''\<newline>'' \<notin> set b" by auto
    from c b have "cut_lines (concat rest) = rest"
      by (intro cut_lines_rest [of "universal_newlines content" b rest]) simp_all
    with b show ?thesis
      using read_marker_complete [OF b(2), of cy "concat rest"] d
      by (simp add: run_full_marker [OF assms])
  next
    assume "rest = [] \<and> CHR ''\<newline>'' \<notin> set l0 \<and> l0 \<noteq> []"
    then show ?thesis
      using read_marker_incomplete [of l0 cy] d
      by (simp add: run_full_marker [OF assms])
  qed
qed

subsection \<open>Only the first five lines decide\<close>

lemma update_lines_frame:
  "update_lines cy ls =
     (case update_lines cy (take 5 ls) of
        Inl e \<Rightarrow> Inl e
      | Inr (out, changed) \<Rightarrow> Inr (out @ drop 5 ls, changed))"
proof (cases ls)
  case Nil
  then show ?thesis by (simp add: update_lines_def)
next
  case (Cons l0 rest)
  have "take 4 rest @ drop 4 rest = rest" by simp
  then show ?thesis
    unfolding Cons update_lines_def
    by (cases "LICENSE_BLOB_LINES_GO cy") (auto simp: Let_def split: sum.splits)
qed

subsection \<open>Concrete values\<close>

lemma year_2026: "year_number (Year 2026) = 2026"
  by (simp add: Year_inverse)

lemma format_2026: "format_d (year_number (Year 2026)) = ''2026''"
  by (simp add: year_2026 format_d.simps)

lemma first_2026:
  "LICENSE_BLOB_LINES_GO (Year 2026) ! 0 = ''// Copyright (c) 2026 The Jaeger Authors.\<newline>''"
  by (simp add: template_first format_2026)

lemma startswith_subset: "startswith s sub \<Longrightarrow> set sub \<subseteq> set s"
  by (induction s sub rule: startswith.induct) auto

lemma contains_subset: "contains sub s \<Longrightarrow> set sub \<subseteq> set s"
proof (induction s)
  case Nil
  then show ?case using startswith_subset [of "[]" sub] by simp
next
  case (Cons c cs)
  then show ?case using startswith_subset [of "c # cs" sub] by auto
qed

lemma decimal_zeros: "decimal (replicate n (CHR ''0'') @ ds) = decimal ds"
proof -
  have "foldl (\<lambda>n c. 10 * n + (of_char c - 48)) (0::nat) (replicate n (CHR ''0'')) = 0"
    by (induction n) simp_all
  then show ?thesis by (simp add: decimal_def)
qed

subsection \<open>The text on disk after a call\<close>

lemma unprinted_disk:
  "\<not> printed (update_go_license cy content) \<Longrightarrow> disk (update_go_license cy content) = content"
  by (auto simp: update_go_license_def split: sum.splits prod.splits if_splits)

lemma printed_shift:
  assumes p: "printed (update_go_license cy content)"
  shows "CR \<notin> set (disk (update_go_license cy content)) \<and>
     (\<exists>n. length (readlines (disk (update_go_license cy content))) = length (readlines content) + n \<and>
          drop (5 + n) (readlines (disk (update_go_license cy content))) =
            drop 5 (readlines content))"
proof -
  let ?L = "readlines content"
  let ?r = "update_go_license cy content"
  let ?L' = "readlines (disk ?r)"
  show ?thesis
  proof (cases ?L)
    case Nil
    then have "content = []" by (rule readlines_Nil)
    with p show ?thesis by (simp add: run_empty)
  next
    case (Cons l0 rest)
    show ?thesis
    proof (cases "scan cy (take 5 ?L)")
      case (Inl e)
      with p show ?thesis by (simp add: run_raise)
    next
      case (Inr st)
      show ?thesis
      proof (cases "found st")
        case True
        show ?thesis
        proof (cases "jaeger st")
          case True
          with p Inr \<open>found st\<close> show ?thesis by (simp add: run_noop [of cy content st])
        next
          case False
          show ?thesis
          proof (cases "contains ''Code generated by'' l0")
            case True
            with p show ?thesis by (simp add: run_single_marker [OF Cons Inr \<open>found st\<close> False])
          next
            case m: False
            have "?L' = [LICENSE_BLOB_LINES_GO cy ! 0] @ ?L"
              using reread_single [OF Cons Inr True False m] by simp
            then have "length ?L' = length ?L + 1 \<and> drop (5 + 1) ?L' = drop 5 ?L"
              using shift [of ?L' "[LICENSE_BLOB_LINES_GO cy ! 0]" ?L] by simp
            moreover have "CR \<notin> set (disk ?r)"
              using first_no_CR [of cy] universal_no_CR [of content]
              by (simp add: run_single [OF Cons Inr True False m])
            ultimately show ?thesis by blast
          qed
        qed
      next
        case False
        show ?thesis
        proof (cases "contains ''Code generated by'' l0")
          case True
          have c: "CR \<notin> set (disk ?r)"
            using lines_no_CR [OF Cons] template_no_CR [of cy]
            by (simp add: run_full_marker [OF Cons Inr False True] CR_def)
          show ?thesis
          proof (cases "CHR ''\<newline>'' \<in> set l0")
            case nl: True
            have L': "?L' = l0 # ''\<newline>'' # LICENSE_BLOB_LINES_GO cy @ ''\<newline>'' # rest"
              using reread_full_marker [OF Cons Inr False True] nl by simp
            have "length ?L' = length ?L + 15 \<and> drop (5 + 15) ?L' = drop 5 ?L"
              unfolding L' Cons by (simp add: template_length)
            with c show ?thesis by blast
          next
            case nl: False
            have "cut_lines (universal_newlines content) = l0 # rest"
              using Cons by (simp add: readlines_def)
            with nl cut_lines_first [of "universal_newlines content" l0 rest]
            have rest: "rest = []" by auto
            have L': "?L' = (l0 @ ''\<newline>'') # LICENSE_BLOB_LINES_GO cy @ [''\<newline>'']"
              using reread_full_marker [OF Cons Inr False True] nl by simp
            have "length ?L' = length ?L + 14 \<and> drop (5 + 14) ?L' = drop 5 ?L"
              unfolding L' Cons rest by (simp add: template_length)
            with c show ?thesis by blast
          qed
        next
          case m: False
          have "?L' = (LICENSE_BLOB_LINES_GO cy @ [''\<newline>'']) @ ?L"
            using reread_full [OF Cons Inr False m] by simp
          then have "length ?L' = length ?L + 14 \<and> drop (5 + 14) ?L' = drop 5 ?L"
            using shift [of ?L' "LICENSE_BLOB_LINES_GO cy @ [''\<newline>'']" ?L]
            by (simp add: template_length)
          moreover have "CR \<notin> set (disk ?r)"
            using template_no_CR [of cy] universal_no_CR [of content]
            by (simp add: run_full [OF Cons Inr False m] CR_def)
          ultimately show ?thesis by blast
        qed
      qed
    qed
  qed
qed

lemma find_take_single: "P x \<Longrightarrow> find P (take 5 [x]) = Some x"
  by simp

section \<open>The claims\<close>

subsection \<open>C1: a current year on the matched line\<close>

text \<open>
  C1, as stated, fails. The file below has its first matched copyright line at index 0,
  the year on it is the current year 2026, and the line does not contain \<open>Jaeger\<close>. The
  loop leaves \<open>jaeger = False\<close> whatever the year is, so the single-line notice is
  inserted, the file is rewritten and its name printed: the call is not a no-op.
\<close>

theorem current_year_other_holder_counterexample:
  "find (\<lambda>l. COPYRIGHT_RE_search l \<noteq> None)
     (take 5 (readlines ''// Copyright (c) 2026 Foo\<newline>package x\<newline>''))
     = Some ''// Copyright (c) 2026 Foo\<newline>'' \<and>
   COPYRIGHT_RE_search ''// Copyright (c) 2026 Foo\<newline>'' = Some ''2026'' \<and>
   int_of ''2026'' = Inr (year_number (Year 2026)) \<and>
   update_go_license (Year 2026) ''// Copyright (c) 2026 Foo\<newline>package x\<newline>'' =
     \<lparr>disk = ''// Copyright (c) 2026 The Jaeger Authors.\<newline>// Copyright (c) 2026 Foo\<newline>package x\<newline>'',
      printed = True, raised = None\<rparr>"
proof -
  let ?c = "''// Copyright (c) 2026 Foo\<newline>package x\<newline>''"
  have s: "COPYRIGHT_RE_search ''// Copyright (c) 2026 Foo\<newline>'' = Some ''2026''"
    by (simp add: match_at_def lower_def isdigit_def)
  have r: "readlines ?c = [''// Copyright (c) 2026 Foo\<newline>'', ''package x\<newline>'']"
    by (simp add: readlines_def CR_def)
  have u: "universal_newlines ?c = ?c" by (simp add: CR_def)
  have f: "find (\<lambda>l. COPYRIGHT_RE_search l \<noteq> None) (take 5 (readlines ?c))
     = Some ''// Copyright (c) 2026 Foo\<newline>''"
    unfolding r by (simp add: s del: COPYRIGHT_RE_search.simps)
  have y: "int_of ''2026'' = Inr (year_number (Year 2026))"
    by (simp add: int_of_def default_max_str_digits_def decimal_def year_2026)
  have j: "\<not> contains ''Jaeger'' ''// Copyright (c) 2026 Foo\<newline>''" by simp
  have m: "\<not> contains ''Code generated by'' ''// Copyright (c) 2026 Foo\<newline>''" by simp
  have st: "scan (Year 2026) (take 5 (readlines ?c)) =
      Inr \<lparr>found = True, jaeger = contains ''Jaeger'' ''// Copyright (c) 2026 Foo\<newline>'',
       year = Some (decimal ''2026'')\<rparr>"
    using scan_first_match [OF f s, of "Year 2026"] by (simp add: default_max_str_digits_def)
  have "update_go_license (Year 2026) ?c =
      \<lparr>disk = LICENSE_BLOB_LINES_GO (Year 2026) ! 0 @ universal_newlines ?c,
       printed = True, raised = None\<rparr>"
    by (rule run_single [OF r st]) (simp_all only: locals.simps simp_thms j m not_False_eq_True)
  then have "update_go_license (Year 2026) ?c =
      \<lparr>disk = ''// Copyright (c) 2026 The Jaeger Authors.\<newline>// Copyright (c) 2026 Foo\<newline>package x\<newline>'',
       printed = True, raised = None\<rparr>"
    unfolding u first_2026 by simp
  with f s y show ?thesis by (intro conjI)
qed

text \<open>
  C1, amended: for every file whose first matched copyright line within the first five
  lines shows the current year and contains the holder token \<open>Jaeger\<close>, the call is a
  no-op: the text of the file is unchanged and the name is not printed. The first
  matched line is the first of \<open>lines[:5]\<close> on which the pattern is found, and the year
  it shows is the number its digits write. Nothing is raised, unless the year is written
  with more than 4300 digits: then \<open>int\<close> ends the call with a \<open>ValueError\<close>, the file
  untouched all the same.
\<close>

theorem current_year_holder_noop:
  assumes "find (\<lambda>l. COPYRIGHT_RE_search l \<noteq> None) (take 5 (readlines content)) = Some line"
    and "COPYRIGHT_RE_search line = Some ds"
    and "decimal ds = year_number cy"
    and "contains ''Jaeger'' line"
  shows "disk (update_go_license cy content) = content \<and>
     \<not> printed (update_go_license cy content) \<and>
     raised (update_go_license cy content) =
       (if default_max_str_digits < length ds then Some ValueError else None)"
proof (cases "default_max_str_digits < length ds")
  case True
  with scan_first_match [OF assms(1,2), of cy]
  have "scan cy (take 5 (readlines content)) = Inl ValueError" by simp
  then show ?thesis using True by (simp add: run_raise)
next
  case False
  with scan_first_match [OF assms(1,2), of cy]
  have "scan cy (take 5 (readlines content)) =
      Inr \<lparr>found = True, jaeger = contains ''Jaeger'' line, year = Some (decimal ds)\<rparr>"
    by simp
  then have "update_go_license cy content = \<lparr>disk = content, printed = False, raised = None\<rparr>"
    by (rule run_noop) (simp_all add: assms(4))
  with False show ?thesis by simp
qed

text \<open>
  C1, amended, at a concrete file: a header of the current year 2026 with the holder
  token, followed by a package clause.
\<close>

theorem current_year_holder_noop_witness:
  "find (\<lambda>l. COPYRIGHT_RE_search l \<noteq> None)
     (take 5 (readlines ''// Copyright (c) 2026 The Jaeger Authors.\<newline>package x\<newline>''))
     = Some ''// Copyright (c) 2026 The Jaeger Authors.\<newline>'' \<and>
   COPYRIGHT_RE_search ''// Copyright (c) 2026 The Jaeger Authors.\<newline>'' = Some ''2026'' \<and>
   decimal ''2026'' = year_number (Year 2026) \<and>
   contains ''Jaeger'' ''// Copyright (c) 2026 The Jaeger Authors.\<newline>'' \<and>
   update_go_license (Year 2026) ''// Copyright (c) 2026 The Jaeger Authors.\<newline>package x\<newline>'' =
     \<lparr>disk = ''// Copyright (c) 2026 The Jaeger Authors.\<newline>package x\<newline>'',
      printed = False, raised = None\<rparr>"
proof -
  let ?c = "''// Copyright (c) 2026 The Jaeger Authors.\<newline>package x\<newline>''"
  let ?r = "update_go_license (Year 2026) ?c"
  have s: "COPYRIGHT_RE_search ''// Copyright (c) 2026 The Jaeger Authors.\<newline>'' = Some ''2026''"
    by (simp add: match_at_def lower_def isdigit_def)
  have r: "readlines ?c = [''// Copyright (c) 2026 The Jaeger Authors.\<newline>'', ''package x\<newline>'']"
    by (simp add: readlines_def CR_def)
  have f: "find (\<lambda>l. COPYRIGHT_RE_search l \<noteq> None) (take 5 (readlines ?c))
     = Some ''// Copyright (c) 2026 The Jaeger Authors.\<newline>''"
    unfolding r by (simp add: s del: COPYRIGHT_RE_search.simps)
  have y: "decimal ''2026'' = year_number (Year 2026)" by (simp add: decimal_def year_2026)
  have j: "contains ''Jaeger'' ''// Copyright (c) 2026 The Jaeger Authors.\<newline>''" by simp
  from current_year_holder_noop [OF f s y j]
  have "disk ?r = ?c \<and> \<not> printed ?r \<and> raised ?r = None"
    by (simp add: default_max_str_digits_def)
  then have "?r = \<lparr>disk = ?c, printed = False, raised = None\<rparr>"
    by (cases ?r) simp
  with f s y j show ?thesis by (intro conjI)
qed

subsection \<open>C2: the single-line notice after a generated-file marker\<close>

text \<open>
  C2 at a concrete file. The first line contains the marker \<open>Code generated by\<close>, the
  second is a copyright line of 2019 without \<open>Jaeger\<close>, and the current year is 2026,
  so the decision is the single-line notice. \<open>replace\<close> is called with the string
  \<open>LICENSE_BLOB_LINES_GO[0]\<close>, and on the marker path it evaluates
  \<open>['\n'] + header_lines\<close>, a list plus a string: the call ends in a \<open>TypeError\<close>,
  the file keeps its text and its name is not printed. Nothing is inserted after the
  marker line.
\<close>

theorem marker_notice_TypeError:
  "readlines ''// Code generated by x\<newline>// Copyright (c) 2019 Foo\<newline>'' =
     [''// Code generated by x\<newline>'', ''// Copyright (c) 2019 Foo\<newline>''] \<and>
   contains ''Code generated by'' ''// Code generated by x\<newline>'' \<and>
   scan (Year 2026) (take 5 (readlines ''// Code generated by x\<newline>// Copyright (c) 2019 Foo\<newline>'')) =
     Inr \<lparr>found = True, jaeger = False, year = Some 2019\<rparr> \<and>
   update_go_license (Year 2026) ''// Code generated by x\<newline>// Copyright (c) 2019 Foo\<newline>'' =
     \<lparr>disk = ''// Code generated by x\<newline>// Copyright (c) 2019 Foo\<newline>'',
      printed = False, raised = Some TypeError\<rparr>"
proof -
  let ?c = "''// Code generated by x\<newline>// Copyright (c) 2019 Foo\<newline>''"
  have r: "readlines ?c = [''// Code generated by x\<newline>'', ''// Copyright (c) 2019 Foo\<newline>'']"
    by (simp add: readlines_def CR_def)
  have m: "contains ''Code generated by'' ''// Code generated by x\<newline>''" by simp
  have s1: "COPYRIGHT_RE_search ''// Code generated by x\<newline>'' = None"
    by (simp add: match_at_def lower_def isdigit_def)
  have s2: "COPYRIGHT_RE_search ''// Copyright (c) 2019 Foo\<newline>'' = Some ''2019''"
    by (simp add: match_at_def lower_def isdigit_def)
  have j: "\<not> contains ''Jaeger'' ''// Copyright (c) 2019 Foo\<newline>''" by simp
  have y: "int_of ''2019'' = Inr 2019"
    by (simp add: int_of_def default_max_str_digits_def decimal_def)
  have st: "scan (Year 2026) (take 5 (readlines ?c)) =
      Inr \<lparr>found = True, jaeger = False, year = Some 2019\<rparr>"
    unfolding r by (simp add: s1 s2 j y year_2026 del: COPYRIGHT_RE_search.simps contains.simps)
  have "update_go_license (Year 2026) ?c = \<lparr>disk = ?c, printed = False, raised = Some TypeError\<rparr>"
    by (rule run_single_marker [OF r st]) (simp_all only: locals.simps simp_thms m)
  with r m st show ?thesis by (intro conjI)
qed

subsection \<open>C3: the single-line notice at the top of the file\<close>

text \<open>
  C3, as stated, fails at two files, each with a copyright line of the past year 2019 of
  another holder at index 0 and no marker. The first has \<open>CR LF\<close> line ends: the lines
  are read with \<open>LF\<close> ends and written back so, and the text written is the notice
  followed by the original lines with their line ends changed, not by the original text.
  In the second the year is written with 4297 leading zeros, 4301 digits in all: \<open>int\<close>
  raises a \<open>ValueError\<close>, nothing is inserted and the name is not printed.
\<close>

theorem past_year_other_holder_counterexample:
  "(find (\<lambda>l. COPYRIGHT_RE_search l \<noteq> None)
      (take 5 (readlines (''// Copyright (c) 2019 Foo'' @ CR # ''\<newline>package x'' @ CR # ''\<newline>'')))
      = Some ''// Copyright (c) 2019 Foo\<newline>'' \<and>
    COPYRIGHT_RE_search ''// Copyright (c) 2019 Foo\<newline>'' = Some ''2019'' \<and>
    decimal ''2019'' < year_number (Year 2026) \<and>
    \<not> contains ''Jaeger'' ''// Copyright (c) 2019 Foo\<newline>'' \<and>
    \<not> contains ''Code generated by'' ''// Copyright (c) 2019 Foo\<newline>'' \<and>
    disk (update_go_license (Year 2026)
        (''// Copyright (c) 2019 Foo'' @ CR # ''\<newline>package x'' @ CR # ''\<newline>'')) =
      ''// Copyright (c) 2026 The Jaeger Authors.\<newline>// Copyright (c) 2019 Foo\<newline>package x\<newline>'' \<and>
    disk (update_go_license (Year 2026)
        (''// Copyright (c) 2019 Foo'' @ CR # ''\<newline>package x'' @ CR # ''\<newline>'')) \<noteq>
      LICENSE_BLOB_LINES_GO (Year 2026) ! 0 @
        ''// Copyright (c) 2019 Foo'' @ CR # ''\<newline>package x'' @ CR # ''\<newline>'') \<and>
   (find (\<lambda>l. COPYRIGHT_RE_search l \<noteq> None)
      (take 5 (readlines (''// Copyright (c) '' @ replicate 4297 (CHR ''0'') @ ''2019 Foo\<newline>'')))
      = Some (''// Copyright (c) '' @ replicate 4297 (CHR ''0'') @ ''2019 Foo\<newline>'') \<and>
    COPYRIGHT_RE_search (''// Copyright (c) '' @ replicate 4297 (CHR ''0'') @ ''2019 Foo\<newline>'')
      = Some (replicate 4297 (CHR ''0'') @ ''2019'') \<and>
    decimal (replicate 4297 (CHR ''0'') @ ''2019'') < year_number (Year 2026) \<and>
    \<not> contains ''Jaeger'' (''// Copyright (c) '' @ replicate 4297 (CHR ''0'') @ ''2019 Foo\<newline>'') \<and>
    \<not> contains ''Code generated by''
        (''// Copyright (c) '' @ replicate 4297 (CHR ''0'') @ ''2019 Foo\<newline>'') \<and>
    update_go_license (Year 2026)
        (''// Copyright (c) '' @ replicate 4297 (CHR ''0'') @ ''2019 Foo\<newline>'') =
      \<lparr>disk = ''// Copyright (c) '' @ replicate 4297 (CHR ''0'') @ ''2019 Foo\<newline>'',
       printed = False, raised = Some ValueError\<rparr>)"
proof (rule conjI)
  let ?c = "''// Copyright (c) 2019 Foo'' @ CR # ''\<newline>package x'' @ CR # ''\<newline>''"
  let ?l = "''// Copyright (c) 2019 Foo\<newline>''"
  let ?r = "update_go_license (Year 2026) ?c"
  have s: "COPYRIGHT_RE_search ?l = Some ''2019''"
    by (simp add: match_at_def lower_def isdigit_def)
  have r: "readlines ?c = [?l, ''package x\<newline>'']"
    by (simp add: readlines_def CR_def)
  have u: "universal_newlines ?c = ''// Copyright (c) 2019 Foo\<newline>package x\<newline>''"
    by (simp add: CR_def)
  have f: "find (\<lambda>l. COPYRIGHT_RE_search l \<noteq> None) (take 5 (readlines ?c)) = Some ?l"
    unfolding r by (simp add: s del: COPYRIGHT_RE_search.simps)
  have y: "decimal ''2019'' < year_number (Year 2026)" by (simp add: decimal_def year_2026)
  have k: "length ''2019'' \<le> default_max_str_digits" by (simp add: default_max_str_digits_def)
  have j: "\<not> contains ''Jaeger'' ?l" by simp
  have m: "\<not> contains ''Code generated by'' ?l" by simp
  have st: "scan (Year 2026) (take 5 (readlines ?c)) =
      Inr \<lparr>found = True, jaeger = contains ''Jaeger'' ?l, year = Some (decimal ''2019'')\<rparr>"
    using scan_first_match [OF f s, of "Year 2026"] k by simp
  have "?r = \<lparr>disk = LICENSE_BLOB_LINES_GO (Year 2026) ! 0 @ universal_newlines ?c,
       printed = True, raised = None\<rparr>"
    by (rule run_single [OF r st]) (simp_all only: locals.simps simp_thms j m not_False_eq_True)
  then have d: "disk ?r =
      ''// Copyright (c) 2026 The Jaeger Authors.\<newline>// Copyright (c) 2019 Foo\<newline>package x\<newline>''"
    unfolding u first_2026 by simp
  have "CR \<in> set (LICENSE_BLOB_LINES_GO (Year 2026) ! 0 @ ?c)" by simp
  moreover have "CR \<notin> set (disk ?r)" unfolding d by (simp add: CR_def)
  ultimately have ne: "disk ?r \<noteq> LICENSE_BLOB_LINES_GO (Year 2026) ! 0 @ ?c" by metis
  from f s y j m d ne
  show "find (\<lambda>l. COPYRIGHT_RE_search l \<noteq> None) (take 5 (readlines ?c)) = Some ?l \<and>
    COPYRIGHT_RE_search ?l = Some ''2019'' \<and>
    decimal ''2019'' < year_number (Year 2026) \<and>
    \<not> contains ''Jaeger'' ?l \<and>
    \<not> contains ''Code generated by'' ?l \<and>
    disk ?r =
      ''// Copyright (c) 2026 The Jaeger Authors.\<newline>// Copyright (c) 2019 Foo\<newline>package x\<newline>'' \<and>
    disk ?r \<noteq> LICENSE_BLOB_LINES_GO (Year 2026) ! 0 @ ?c"
    by (intro conjI)
next
  let ?z = "replicate 4297 (CHR ''0'') @ ''2019''"
  let ?b = "''// Copyright (c) '' @ replicate 4297 (CHR ''0'') @ ''2019 Foo''"
  let ?c = "''// Copyright (c) '' @ replicate 4297 (CHR ''0'') @ ''2019 Foo\<newline>''"
  have e: "?c = ''// Copyright (c) '' @ ?z @ CHR '' '' # ''Foo\<newline>''" by simp
  have e2: "?c = ?b @ CHR ''\<newline>'' # []" by simp
  have dz: "isdigit c" if "c \<in> set ?z" for c using that by (auto simp: isdigit_def)
  have s: "COPYRIGHT_RE_search ?c = Some ?z"
    unfolding e by (rule search_notice) (erule dz, simp)
  have nl: "CHR ''\<newline>'' \<notin> set ?b" by simp
  have cr: "CR \<notin> set ?c" by (simp add: CR_def)
  have "cut_lines (?b @ CHR ''\<newline>'' # []) = (?b @ ''\<newline>'') # cut_lines []"
    using nl by (rule cut_lines_line)
  then have c1: "cut_lines ?c = [?c]" by simp
  have "readlines ?c = cut_lines ?c" using cr by (rule readlines_no_CR)
  then have r: "readlines ?c = [?c]" by (simp only: c1)
  have "COPYRIGHT_RE_search ?c \<noteq> None" by (simp only: s option.distinct not_False_eq_True)
  then have f: "find (\<lambda>l. COPYRIGHT_RE_search l \<noteq> None) (take 5 (readlines ?c)) = Some ?c"
    unfolding r by (rule find_take_single)
  have "decimal ?z = decimal ''2019''" by (rule decimal_zeros)
  then have y: "decimal ?z < year_number (Year 2026)" by (simp add: decimal_def year_2026)
  have j: "\<not> contains ''Jaeger'' ?c"
  proof
    assume "contains ''Jaeger'' ?c"
    then have "set ''Jaeger'' \<subseteq> set ?c" by (rule contains_subset)
    then have "CHR ''J'' \<in> set ?c" by simp
    then show False by simp
  qed
  have m: "\<not> contains ''Code generated by'' ?c"
  proof
    assume "contains ''Code generated by'' ?c"
    then have "set ''Code generated by'' \<subseteq> set ?c" by (rule contains_subset)
    then have "CHR ''d'' \<in> set ?c" by simp
    then show False by simp
  qed
  have "default_max_str_digits < length ?z" by (simp add: default_max_str_digits_def)
  with scan_first_match [OF f s, of "Year 2026"]
  have "scan (Year 2026) (take 5 (readlines ?c)) = Inl ValueError" by simp
  then have "update_go_license (Year 2026) ?c =
      \<lparr>disk = ?c, printed = False, raised = Some ValueError\<rparr>" by (rule run_raise)
  with f s y j m
  show "find (\<lambda>l. COPYRIGHT_RE_search l \<noteq> None) (take 5 (readlines ?c)) = Some ?c \<and>
    COPYRIGHT_RE_search ?c = Some ?z \<and>
    decimal ?z < year_number (Year 2026) \<and>
    \<not> contains ''Jaeger'' ?c \<and>
    \<not> contains ''Code generated by'' ?c \<and>
    update_go_license (Year 2026) ?c = \<lparr>disk = ?c, printed = False, raised = Some ValueError\<rparr>"
    by (intro conjI)
qed

text \<open>
  C3, amended: for every file whose first matched copyright line within the first five
  lines shows a past year, written with at most 4300 digits, and does not contain
  \<open>Jaeger\<close>, and whose first line does not contain the marker \<open>Code generated by\<close>,
  the text written is the first template line followed by the original text with every
  \<open>CR LF\<close> and every other \<open>CR\<close> written as \<open>LF\<close>; read back, the file is that one line
  followed by all the lines read before; the name is printed and nothing is raised. For
  a file without \<open>CR\<close> the text after the inserted line is the original text unchanged.
  The slice assignment inserts the characters of the line one by one, and writing them
  one after the other gives the line again.
\<close>

theorem past_year_other_holder_notice:
  assumes "find (\<lambda>l. COPYRIGHT_RE_search l \<noteq> None) (take 5 (readlines content)) = Some line"
    and "COPYRIGHT_RE_search line = Some ds"
    and "decimal ds < year_number cy"
    and "length ds \<le> default_max_str_digits"
    and "\<not> contains ''Jaeger'' line"
    and "readlines content = l0 # rest"
    and "\<not> contains ''Code generated by'' l0"
  shows "update_go_license cy content =
       \<lparr>disk = LICENSE_BLOB_LINES_GO cy ! 0 @ universal_newlines content,
        printed = True, raised = None\<rparr> \<and>
     readlines (disk (update_go_license cy content)) =
       (LICENSE_BLOB_LINES_GO cy ! 0) # readlines content \<and>
     LICENSE_BLOB_LINES_GO cy ! 0 =
       ''// Copyright (c) '' @ format_d (year_number cy) @ '' The Jaeger Authors.\<newline>'' \<and>
     (CR \<notin> set content \<longrightarrow> universal_newlines content = content)"
proof -
  let ?st = "\<lparr>found = True, jaeger = contains ''Jaeger'' line, year = Some (decimal ds)\<rparr>"
  from scan_first_match [OF assms(1,2), of cy] assms(4)
  have st: "scan cy (take 5 (readlines content)) = Inr ?st" by simp
  have f: "found ?st" and j: "\<not> jaeger ?st" using assms(5) by simp_all
  show ?thesis
    using run_single [OF assms(6) st f j assms(7)] reread_single [OF assms(6) st f j assms(7)]
      template_first [of cy] universal_id [of content]
    by (intro conjI impI)
qed

text \<open>
  C3, amended, at the example of the specification: a notice of 2019 of another holder
  and a package clause, with \<open>LF\<close> line ends and 2026 as the current year.
\<close>

theorem past_year_other_holder_notice_witness:
  "find (\<lambda>l. COPYRIGHT_RE_search l \<noteq> None)
     (take 5 (readlines ''// Copyright (c) 2019 Some Other Corp\<newline>package foo\<newline>''))
     = Some ''// Copyright (c) 2019 Some Other Corp\<newline>'' \<and>
   COPYRIGHT_RE_search ''// Copyright (c) 2019 Some Other Corp\<newline>'' = Some ''2019'' \<and>
   decimal ''2019'' < year_number (Year 2026) \<and>
   length ''2019'' \<le> default_max_str_digits \<and>
   \<not> contains ''Jaeger'' ''// Copyright (c) 2019 Some Other Corp\<newline>'' \<and>
   readlines ''// Copyright (c) 2019 Some Other Corp\<newline>package foo\<newline>'' =
     [''// Copyright (c) 2019 Some Other Corp\<newline>'', ''package foo\<newline>''] \<and>
   \<not> contains ''Code generated by'' ''// Copyright (c) 2019 Some Other Corp\<newline>'' \<and>
   CR \<notin> set ''// Copyright (c) 2019 Some Other Corp\<newline>package foo\<newline>'' \<and>
   update_go_license (Year 2026) ''// Copyright (c) 2019 Some Other Corp\<newline>package foo\<newline>'' =
     \<lparr>disk = ''// Copyright (c) 2026 The Jaeger Authors.\<newline>// Copyright (c) 2019 Some Other Corp\<newline>package foo\<newline>'',
      printed = True, raised = None\<rparr> \<and>
   readlines (disk (update_go_license (Year 2026)
       ''// Copyright (c) 2019 Some Other Corp\<newline>package foo\<newline>'')) =
     [''// Copyright (c) 2026 The Jaeger Authors.\<newline>'',
      ''// Copyright (c) 2019 Some Other Corp\<newline>'', ''package foo\<newline>'']"
proof -
  let ?c = "''// Copyright (c) 2019 Some Other Corp\<newline>package foo\<newline>''"
  let ?l = "''// Copyright (c) 2019 Some Other Corp\<newline>''"
  have s: "COPYRIGHT_RE_search ?l = Some ''2019''"
    by (simp add: match_at_def lower_def isdigit_def)
  have r: "readlines ?c = [?l, ''package foo\<newline>'']"
    by (simp add: readlines_def CR_def)
  have f: "find (\<lambda>l. COPYRIGHT_RE_search l \<noteq> None) (take 5 (readlines ?c)) = Some ?l"
    unfolding r by (simp add: s del: COPYRIGHT_RE_search.simps)
  have y: "decimal ''2019'' < year_number (Year 2026)" by (simp add: decimal_def year_2026)
  have k: "length ''2019'' \<le> default_max_str_digits" by (simp add: default_max_str_digits_def)
  have j: "\<not> contains ''Jaeger'' ?l" by simp
  have m: "\<not> contains ''Code generated by'' ?l" by simp
  have c: "CR \<notin> set ?c" by (simp add: CR_def)
  note t = past_year_other_holder_notice [OF f s y k j r m]
  from t c have u: "universal_newlines ?c = ?c" by blast
  from t have "update_go_license (Year 2026) ?c =
      \<lparr>disk = LICENSE_BLOB_LINES_GO (Year 2026) ! 0 @ universal_newlines ?c,
       printed = True, raised = None\<rparr>" by blast
  then have 1: "update_go_license (Year 2026) ?c =
      \<lparr>disk = ''// Copyright (c) 2026 The Jaeger Authors.\<newline>// Copyright (c) 2019 Some Other Corp\<newline>package foo\<newline>'',
       printed = True, raised = None\<rparr>"
    unfolding u first_2026 by simp
  from t have "readlines (disk (update_go_license (Year 2026) ?c)) =
      (LICENSE_BLOB_LINES_GO (Year 2026) ! 0) # readlines ?c" by blast
  then have 2: "readlines (disk (update_go_license (Year 2026) ?c)) =
      [''// Copyright (c) 2026 The Jaeger Authors.\<newline>'', ?l, ''package foo\<newline>'']"
    unfolding r first_2026 .
  from f s y k j r m c 1 2 show ?thesis by (intro conjI)
qed

subsection \<open>C4: what the copyright pattern ignores\<close>

text \<open>
  C4, as stated, fails: the flag \<open>re.I\<close> covers the whole pattern, so a line with an
  upper-case \<open>(C)\<close> is detected.
\<close>

theorem upper_C_detected_counterexample:
  "COPYRIGHT_RE_search ''Copyright (C) 2020'' \<noteq> None"
  by (simp add: match_at_def lower_def isdigit_def)

text \<open>
  C4, amended: the detection ignores the case of every letter of the pattern, the
  \<open>c\<close> of \<open>(c)\<close> included, and is exact on the parentheses and the spaces. A line is
  detected exactly when it contains a block that is \<open>copyright (c) \<close> once its letters
  are put in lower case, followed by a digit. So \<open>copyright (c) 2020\<close> and
  \<open>Copyright (C) 2020\<close> are both detected, with 2020 as the year, and
  \<open>Copyright c 2020\<close>, without the parentheses, is not.
\<close>

theorem detection_ignores_case_everywhere:
  "(COPYRIGHT_RE_search l \<noteq> None \<longleftrightarrow>
      (\<exists>pre m d post. l = pre @ m @ d # post \<and> map lower m = ''copyright (c) '' \<and> isdigit d)) \<and>
   COPYRIGHT_RE_search ''copyright (c) 2020'' = Some ''2020'' \<and>
   COPYRIGHT_RE_search ''Copyright (C) 2020'' = Some ''2020'' \<and>
   COPYRIGHT_RE_search ''Copyright c 2020'' = None"
proof (intro conjI)
  show "COPYRIGHT_RE_search l \<noteq> None \<longleftrightarrow>
      (\<exists>pre m d post. l = pre @ m @ d # post \<and> map lower m = ''copyright (c) '' \<and> isdigit d)"
    by (rule search_iff)
  show "COPYRIGHT_RE_search ''copyright (c) 2020'' = Some ''2020''"
    by (simp add: match_at_def lower_def isdigit_def)
  show "COPYRIGHT_RE_search ''Copyright (C) 2020'' = Some ''2020''"
    by (simp add: match_at_def lower_def isdigit_def)
  show "COPYRIGHT_RE_search ''Copyright c 2020'' = None"
    by (simp add: match_at_def lower_def isdigit_def)
qed

subsection \<open>C5: the comment lines of the template\<close>

text \<open>
  C5, as stated, fails at the second line of the license text, which is blank. Trimming
  first and prefixing afterwards, as the specification has it, gives the prefix with its
  space; the code prefixes first and strips afterwards, which removes that space.
\<close>

theorem blank_line_counterexample:
  "split (CHR ''\<newline>'') (LICENSE_BLOB (Year 2026)) ! 1 = [] \<and>
   LICENSE_BLOB_LINES_GO (Year 2026) ! 1 = ''//\<newline>'' \<and>
   spec_comment_line (split (CHR ''\<newline>'') (LICENSE_BLOB (Year 2026)) ! 1) = ''// \<newline>'' \<and>
   LICENSE_BLOB_LINES_GO (Year 2026) ! 1 \<noteq>
     spec_comment_line (split (CHR ''\<newline>'') (LICENSE_BLOB (Year 2026)) ! 1)"
  by (simp add: LICENSE_BLOB_lines template_lines spec_comment_line_def rstrip_def)

text \<open>
  C5, amended: every line of the template is the license line with the comment prefix
  put in front first and the white space at both ends stripped afterwards, followed by a
  line feed. For the license text this is \<open>// \<close> and the line unchanged for every
  non-blank line, and \<open>//\<close> alone, without the space of the prefix, for every blank
  line.
\<close>

theorem template_prefix_then_strip:
  "LICENSE_BLOB_LINES_GO cy =
     map (\<lambda>l. strip (''// '' @ l) @ ''\<newline>'') (split (CHR ''\<newline>'') (LICENSE_BLOB cy)) \<and>
   LICENSE_BLOB_LINES_GO cy =
     map (\<lambda>l. if l = [] then ''//\<newline>'' else ''// '' @ l @ ''\<newline>'')
       (split (CHR ''\<newline>'') (LICENSE_BLOB cy))"
  using template_by_line [of cy] by (simp add: LICENSE_BLOB_LINES_GO_def)

subsection \<open>C6: the full header for a file without a notice\<close>

text \<open>
  C6 at the empty file. No line matches the pattern, so the claim asks for the full
  header block at the top and the name printed. The code takes the full-header path, but
  \<open>replace\<close> reads \<open>lines[0]\<close> before it inserts anything: the call ends in an
  \<open>IndexError\<close>, the file stays empty and its name is not printed.
\<close>

theorem empty_file_gets_no_header:
  "find (\<lambda>l. COPYRIGHT_RE_search l \<noteq> None) (take 5 (readlines [])) = None \<and>
   disk (update_go_license cy []) = [] \<and>
   \<not> printed (update_go_license cy []) \<and>
   raised (update_go_license cy []) = Some IndexError"
  by (simp add: run_empty readlines_def)

subsection \<open>C7: a past year of the expected holder\<close>

text \<open>
  C7: for every file whose first matched copyright line within the first five lines
  shows a past year and contains the holder token \<open>Jaeger\<close>, the call leaves the text
  of the file as it is and does not print the name: the year is not corrected. Nothing
  is raised, unless the year is written with more than 4300 digits: then \<open>int\<close> ends the
  call with a \<open>ValueError\<close>, the file untouched all the same.
\<close>

theorem past_year_holder_noop:
  assumes "find (\<lambda>l. COPYRIGHT_RE_search l \<noteq> None) (take 5 (readlines content)) = Some line"
    and "COPYRIGHT_RE_search line = Some ds"
    and "decimal ds < year_number cy"
    and "contains ''Jaeger'' line"
  shows "disk (update_go_license cy content) = content \<and>
     \<not> printed (update_go_license cy content) \<and>
     raised (update_go_license cy content) =
       (if default_max_str_digits < length ds then Some ValueError else None)"
proof (cases "default_max_str_digits < length ds")
  case True
  with scan_first_match [OF assms(1,2), of cy]
  have "scan cy (take 5 (readlines content)) = Inl ValueError" by simp
  then show ?thesis using True by (simp add: run_raise)
next
  case False
  with scan_first_match [OF assms(1,2), of cy]
  have "scan cy (take 5 (readlines content)) =
      Inr \<lparr>found = True, jaeger = contains ''Jaeger'' line, year = Some (decimal ds)\<rparr>"
    by simp
  then have "update_go_license cy content = \<lparr>disk = content, printed = False, raised = None\<rparr>"
    by (rule run_noop) (simp_all add: assms(4))
  with False show ?thesis by simp
qed

text \<open>
  C7 at a concrete file: a package clause followed by a notice of 2017 with the holder
  token, with 2026 as the current year.
\<close>

theorem past_year_holder_noop_witness:
  "find (\<lambda>l. COPYRIGHT_RE_search l \<noteq> None)
     (take 5 (readlines ''package x\<newline>// Copyright (c) 2017 The Jaeger Authors.\<newline>''))
     = Some ''// Copyright (c) 2017 The Jaeger Authors.\<newline>'' \<and>
   COPYRIGHT_RE_search ''// Copyright (c) 2017 The Jaeger Authors.\<newline>'' = Some ''2017'' \<and>
   decimal ''2017'' < year_number (Year 2026) \<and>
   contains ''Jaeger'' ''// Copyright (c) 2017 The Jaeger Authors.\<newline>'' \<and>
   update_go_license (Year 2026) ''package x\<newline>// Copyright (c) 2017 The Jaeger Authors.\<newline>'' =
     \<lparr>disk = ''package x\<newline>// Copyright (c) 2017 The Jaeger Authors.\<newline>'',
      printed = False, raised = None\<rparr>"
proof -
  let ?c = "''package x\<newline>// Copyright (c) 2017 The Jaeger Authors.\<newline>''"
  let ?r = "update_go_license (Year 2026) ?c"
  have s: "COPYRIGHT_RE_search ''// Copyright (c) 2017 The Jaeger Authors.\<newline>'' = Some ''2017''"
    by (simp add: match_at_def lower_def isdigit_def)
  have n: "COPYRIGHT_RE_search ''package x\<newline>'' = None"
    by (simp add: match_at_def lower_def isdigit_def)
  have r: "readlines ?c =
      [''package x\<newline>'', ''// Copyright (c) 2017 The Jaeger Authors.\<newline>'']"
    by (simp add: readlines_def CR_def)
  have f: "find (\<lambda>l. COPYRIGHT_RE_search l \<noteq> None) (take 5 (readlines ?c))
     = Some ''// Copyright (c) 2017 The Jaeger Authors.\<newline>''"
    unfolding r by (simp add: s n del: COPYRIGHT_RE_search.simps)
  have y: "decimal ''2017'' < year_number (Year 2026)" by (simp add: decimal_def year_2026)
  have j: "contains ''Jaeger'' ''// Copyright (c) 2017 The Jaeger Authors.\<newline>''" by simp
  from past_year_holder_noop [OF f s y j]
  have "disk ?r = ?c \<and> \<not> printed ?r \<and> raised ?r = None"
    by (simp add: default_max_str_digits_def)
  then have "?r = \<lparr>disk = ?c, printed = False, raised = None\<rparr>"
    by (cases ?r) simp
  with f s y j show ?thesis by (intro conjI)
qed

subsection \<open>C8: idempotence\<close>

text \<open>
  C8: for every file on which one call succeeds (raises nothing), a second call on the
  text the first one left is a no-op: the text stays the same, the name is not printed
  and nothing is raised. So two calls in a row leave the same file as one call.
\<close>

theorem idempotent:
  assumes "raised (update_go_license cy content) = None"
  shows "update_go_license cy (disk (update_go_license cy content)) =
     \<lparr>disk = disk (update_go_license cy content), printed = False, raised = None\<rparr>"
proof (cases "readlines content")
  case Nil
  then have "content = []" by (rule readlines_Nil)
  with assms show ?thesis by (simp add: run_empty)
next
  case (Cons l0 rest)
  let ?h = "LICENSE_BLOB_LINES_GO cy ! 0"
  have T: "LICENSE_BLOB_LINES_GO cy @ xs = ?h # (tl (LICENSE_BLOB_LINES_GO cy) @ xs)" for xs
    using template_Cons [of cy] by (metis append_Cons)
  show ?thesis
  proof (cases "scan cy (take 5 (readlines content))")
    case (Inl e)
    with assms show ?thesis by (simp add: run_raise)
  next
    case (Inr st)
    show ?thesis
    proof (cases "found st")
      case True
      show ?thesis
      proof (cases "jaeger st")
        case True
        with Inr \<open>found st\<close> have "update_go_license cy content =
            \<lparr>disk = content, printed = False, raised = None\<rparr>" by (rule run_noop)
        then show ?thesis by simp
      next
        case False
        show ?thesis
        proof (cases "contains ''Code generated by'' l0")
          case True
          with assms run_single_marker [OF Cons Inr \<open>found st\<close> False] show ?thesis by simp
        next
          case m: False
          have "readlines (disk (update_go_license cy content)) = [] @ ?h # readlines content"
            using reread_single [OF Cons Inr True False m] by simp
          then show ?thesis by (rule second_run) simp_all
        qed
      qed
    next
      case False
      have l0: "COPYRIGHT_RE_search l0 = None"
        by (rule not_found_no_match [OF Inr False]) (simp add: Cons)
      show ?thesis
      proof (cases "contains ''Code generated by'' l0")
        case True
        show ?thesis
        proof (cases "CHR ''\<newline>'' \<in> set l0")
          case nl: True
          have "readlines (disk (update_go_license cy content)) =
              [l0, ''\<newline>''] @ ?h # (tl (LICENSE_BLOB_LINES_GO cy) @ ''\<newline>'' # rest)"
            using reread_full_marker [OF Cons Inr False True] nl by (simp add: T)
          then show ?thesis
            by (rule second_run) (auto simp: l0 search_nl simp del: COPYRIGHT_RE_search.simps)
        next
          case nl: False
          have "readlines (disk (update_go_license cy content)) =
              [l0 @ ''\<newline>''] @ ?h # (tl (LICENSE_BLOB_LINES_GO cy) @ [''\<newline>''])"
            using reread_full_marker [OF Cons Inr False True] nl by (simp add: T)
          then show ?thesis
            by (rule second_run) (auto simp: l0 search_snoc_nl simp del: COPYRIGHT_RE_search.simps)
        qed
      next
        case m: False
        have "readlines (disk (update_go_license cy content)) =
            [] @ ?h # (tl (LICENSE_BLOB_LINES_GO cy) @ ''\<newline>'' # readlines content)"
          using reread_full [OF Cons Inr False m] by (simp add: T)
        then show ?thesis by (rule second_run) simp_all
      qed
    qed
  qed
qed

text \<open>
  C8 at a concrete file: a package clause alone. The first call inserts the full header
  and prints the name; the second changes nothing.
\<close>

theorem idempotent_witness:
  "raised (update_go_license (Year 2026) ''package x\<newline>'') = None \<and>
   printed (update_go_license (Year 2026) ''package x\<newline>'') \<and>
   update_go_license (Year 2026) (disk (update_go_license (Year 2026) ''package x\<newline>'')) =
     \<lparr>disk = disk (update_go_license (Year 2026) ''package x\<newline>''),
      printed = False, raised = None\<rparr>"
proof -
  let ?c = "''package x\<newline>''"
  have r: "readlines ?c = [''package x\<newline>'']" by (simp add: readlines_def CR_def)
  have s: "COPYRIGHT_RE_search ''package x\<newline>'' = None"
    by (simp add: match_at_def lower_def isdigit_def)
  have st: "scan (Year 2026) (take 5 (readlines ?c)) =
      Inr \<lparr>found = False, jaeger = False, year = None\<rparr>"
    unfolding r by (simp add: s del: COPYRIGHT_RE_search.simps)
  have m: "\<not> contains ''Code generated by'' ''package x\<newline>''" by simp
  have u: "update_go_license (Year 2026) ?c =
      \<lparr>disk = concat (LICENSE_BLOB_LINES_GO (Year 2026)) @ ''\<newline>'' @ universal_newlines ?c,
       printed = True, raised = None\<rparr>"
    by (rule run_full [OF r st _ m]) simp
  have 1: "raised (update_go_license (Year 2026) ?c) = None" by (simp only: u outcome.simps)
  have 2: "printed (update_go_license (Year 2026) ?c)" by (simp only: u outcome.simps)
  from idempotent [OF 1] 1 2 show ?thesis by (intro conjI)
qed

subsection \<open>C9: the lines from index 5 on\<close>

text \<open>
  C9, as stated, fails at a file of six lines with \<open>CR LF\<close> line ends and no copyright
  line. The full header is inserted and the file rewritten; the line at index 5 of the
  file, \<open>f CR LF\<close>, is not in the output: no \<open>CR\<close> is left there, and the line at index
  19, fourteen lines further down, is \<open>f LF\<close>.
\<close>

theorem line_ends_rewritten_counterexample:
  "cut_lines (''a'' @ CR # ''\<newline>b'' @ CR # ''\<newline>c'' @ CR # ''\<newline>d'' @ CR # ''\<newline>e'' @ CR #
       ''\<newline>f'' @ CR # ''\<newline>'') ! 5 = ''f'' @ CR # ''\<newline>'' \<and>
   printed (update_go_license (Year 2026)
     (''a'' @ CR # ''\<newline>b'' @ CR # ''\<newline>c'' @ CR # ''\<newline>d'' @ CR # ''\<newline>e'' @ CR #
       ''\<newline>f'' @ CR # ''\<newline>'')) \<and>
   CR \<notin> set (disk (update_go_license (Year 2026)
     (''a'' @ CR # ''\<newline>b'' @ CR # ''\<newline>c'' @ CR # ''\<newline>d'' @ CR # ''\<newline>e'' @ CR #
       ''\<newline>f'' @ CR # ''\<newline>''))) \<and>
   cut_lines (disk (update_go_license (Year 2026)
     (''a'' @ CR # ''\<newline>b'' @ CR # ''\<newline>c'' @ CR # ''\<newline>d'' @ CR # ''\<newline>e'' @ CR #
       ''\<newline>f'' @ CR # ''\<newline>''))) ! 19 = ''f\<newline>''"
proof -
  let ?c = "''a'' @ CR # ''\<newline>b'' @ CR # ''\<newline>c'' @ CR # ''\<newline>d'' @ CR # ''\<newline>e'' @ CR #
       ''\<newline>f'' @ CR # ''\<newline>''"
  let ?r = "update_go_license (Year 2026) ?c"
  have c5: "cut_lines ?c ! 5 = ''f'' @ CR # ''\<newline>''" by (simp add: CR_def)
  have r: "readlines ?c =
      [''a\<newline>'', ''b\<newline>'', ''c\<newline>'', ''d\<newline>'', ''e\<newline>'', ''f\<newline>'']"
    by (simp add: readlines_def CR_def)
  have st: "scan (Year 2026) (take 5 (readlines ?c)) =
      Inr \<lparr>found = False, jaeger = False, year = None\<rparr>"
    unfolding r by (simp add: match_at_def lower_def isdigit_def)
  have m: "\<not> contains ''Code generated by'' ''a\<newline>''" by simp
  have u: "?r =
      \<lparr>disk = concat (LICENSE_BLOB_LINES_GO (Year 2026)) @ ''\<newline>'' @ universal_newlines ?c,
       printed = True, raised = None\<rparr>"
    by (rule run_full [OF r st _ m]) simp
  have p: "printed ?r" by (simp only: u outcome.simps)
  from printed_shift [OF p] have n: "CR \<notin> set (disk ?r)" by blast
  then have "cut_lines (disk ?r) = readlines (disk ?r)" by (rule readlines_no_CR [symmetric])
  also have "\<dots> = LICENSE_BLOB_LINES_GO (Year 2026) @ ''\<newline>'' # readlines ?c"
    by (rule reread_full [OF r st _ m]) simp
  finally have "cut_lines (disk ?r) ! 19 = ''f\<newline>''"
    by (simp only: r) (simp add: nth_append template_length)
  with c5 p n show ?thesis by (intro conjI)
qed

text \<open>
  C9, amended: for every file and every call, the lines at index 5 and beyond are not
  scanned, and they appear in the output in their original order, shifted downward by
  the number of inserted lines and unchanged but for their line ends, which are written
  as \<open>LF\<close> when the file is rewritten. First, the lines to write and the flag
  \<open>changed\<close> are those computed from the first five lines read, with the lines from
  index 5 on appended as they are. Second, when the name is printed the text on disk has
  no \<open>CR\<close>, it has \<open>n\<close> more lines than were read, and below its first \<open>5 + n\<close> lines
  it is the lines read below the first 5. Third, when the name is not printed (a no-op,
  or an exception) the text on disk is the original text, line ends included. The
  lines read are the lines of the file with \<open>LF\<close> for every line end; for a file
  without \<open>CR\<close> they are the lines of the file as they are.
\<close>

theorem rest_of_file_preserved:
  "let L = readlines content;
       r = update_go_license cy content
   in update_lines cy L =
        (case update_lines cy (take 5 L) of
           Inl e \<Rightarrow> Inl e
         | Inr (out, changed) \<Rightarrow> Inr (out @ drop 5 L, changed)) \<and>
      (printed r \<longrightarrow>
         CR \<notin> set (disk r) \<and>
         (\<exists>n. length (cut_lines (disk r)) = length L + n \<and>
              drop (5 + n) (cut_lines (disk r)) = drop 5 L)) \<and>
      (\<not> printed r \<longrightarrow> disk r = content) \<and>
      (CR \<notin> set content \<longrightarrow> L = cut_lines content)"
proof -
  let ?L = "readlines content"
  let ?r = "update_go_license cy content"
  have 1: "update_lines cy ?L =
      (case update_lines cy (take 5 ?L) of
         Inl e \<Rightarrow> Inl e
       | Inr (out, changed) \<Rightarrow> Inr (out @ drop 5 ?L, changed))"
    by (rule update_lines_frame)
  have 2: "CR \<notin> set (disk ?r) \<and>
      (\<exists>n. length (cut_lines (disk ?r)) = length ?L + n \<and>
           drop (5 + n) (cut_lines (disk ?r)) = drop 5 ?L)" if p: "printed ?r"
  proof -
    from printed_shift [OF p] have c: "CR \<notin> set (disk ?r)"
      and n: "\<exists>n. length (readlines (disk ?r)) = length ?L + n \<and>
           drop (5 + n) (readlines (disk ?r)) = drop 5 ?L" by blast+
    from c have "readlines (disk ?r) = cut_lines (disk ?r)" by (rule readlines_no_CR)
    with c n show ?thesis by simp
  qed
  have 3: "disk ?r = content" if "\<not> printed ?r" using that by (rule unprinted_disk)
  have 4: "?L = cut_lines content" if "CR \<notin> set content" using that by (rule readlines_no_CR)
  from 1 2 3 4 show ?thesis unfolding Let_def by blast
qed

text \<open>
  C9, amended, at two concrete files. The first has six lines with \<open>LF\<close> line ends
  and its only copyright line at index 5: that line is not seen, the full header is
  inserted, and the line is the last line of the file after the call. The second is a
  header of the holder with a \<open>CR LF\<close> line end: the call is a no-op and the text on
  disk is the original, \<open>CR\<close> included.
\<close>

theorem rest_of_file_preserved_witness:
  "(readlines ''a\<newline>b\<newline>c\<newline>d\<newline>e\<newline>// Copyright (c) 2019 Foo\<newline>'' =
      [''a\<newline>'', ''b\<newline>'', ''c\<newline>'', ''d\<newline>'', ''e\<newline>'', ''// Copyright (c) 2019 Foo\<newline>''] \<and>
    printed (update_go_license (Year 2026)
      ''a\<newline>b\<newline>c\<newline>d\<newline>e\<newline>// Copyright (c) 2019 Foo\<newline>'') \<and>
    (\<exists>n. length (cut_lines (disk (update_go_license (Year 2026)
             ''a\<newline>b\<newline>c\<newline>d\<newline>e\<newline>// Copyright (c) 2019 Foo\<newline>''))) = 6 + n \<and>
         drop (5 + n) (cut_lines (disk (update_go_license (Year 2026)
             ''a\<newline>b\<newline>c\<newline>d\<newline>e\<newline>// Copyright (c) 2019 Foo\<newline>''))) =
           [''// Copyright (c) 2019 Foo\<newline>'']) \<and>
    CR \<notin> set ''a\<newline>b\<newline>c\<newline>d\<newline>e\<newline>// Copyright (c) 2019 Foo\<newline>'' \<and>
    readlines ''a\<newline>b\<newline>c\<newline>d\<newline>e\<newline>// Copyright (c) 2019 Foo\<newline>'' =
      cut_lines ''a\<newline>b\<newline>c\<newline>d\<newline>e\<newline>// Copyright (c) 2019 Foo\<newline>'') \<and>
   (\<not> printed (update_go_license (Year 2026)
      (''// Copyright (c) 2017 The Jaeger Authors.'' @ CR # ''\<newline>'')) \<and>
    disk (update_go_license (Year 2026)
      (''// Copyright (c) 2017 The Jaeger Authors.'' @ CR # ''\<newline>'')) =
      ''// Copyright (c) 2017 The Jaeger Authors.'' @ CR # ''\<newline>'')"
proof (rule conjI)
  let ?c = "''a\<newline>b\<newline>c\<newline>d\<newline>e\<newline>// Copyright (c) 2019 Foo\<newline>''"
  let ?r = "update_go_license (Year 2026) ?c"
  have r: "readlines ?c =
      [''a\<newline>'', ''b\<newline>'', ''c\<newline>'', ''d\<newline>'', ''e\<newline>'', ''// Copyright (c) 2019 Foo\<newline>'']"
    by (simp add: readlines_def CR_def)
  have st: "scan (Year 2026) (take 5 (readlines ?c)) =
      Inr \<lparr>found = False, jaeger = False, year = None\<rparr>"
    unfolding r by (simp add: match_at_def lower_def isdigit_def)
  have m: "\<not> contains ''Code generated by'' ''a\<newline>''" by simp
  have u: "?r =
      \<lparr>disk = concat (LICENSE_BLOB_LINES_GO (Year 2026)) @ ''\<newline>'' @ universal_newlines ?c,
       printed = True, raised = None\<rparr>"
    by (rule run_full [OF r st _ m]) simp
  have p: "printed ?r" by (simp only: u outcome.simps)
  have c: "CR \<notin> set ?c" by (simp add: CR_def)
  have len: "length (readlines ?c) = 6" by (simp only: r) simp
  have d: "drop 5 (readlines ?c) = [''// Copyright (c) 2019 Foo\<newline>'']" by (simp only: r) simp
  note t = rest_of_file_preserved [of ?c "Year 2026", unfolded Let_def]
  from t p
  have "\<exists>n. length (cut_lines (disk ?r)) = length (readlines ?c) + n \<and>
      drop (5 + n) (cut_lines (disk ?r)) = drop 5 (readlines ?c)"
    by blast
  then have e: "\<exists>n. length (cut_lines (disk ?r)) = 6 + n \<and>
      drop (5 + n) (cut_lines (disk ?r)) = [''// Copyright (c) 2019 Foo\<newline>'']"
    unfolding len d .
  from t c have k: "readlines ?c = cut_lines ?c" by blast
  from r p e c k
  show "readlines ?c =
      [''a\<newline>'', ''b\<newline>'', ''c\<newline>'', ''d\<newline>'', ''e\<newline>'', ''// Copyright (c) 2019 Foo\<newline>''] \<and>
    printed ?r \<and>
    (\<exists>n. length (cut_lines (disk ?r)) = 6 + n \<and>
         drop (5 + n) (cut_lines (disk ?r)) = [''// Copyright (c) 2019 Foo\<newline>'']) \<and>
    CR \<notin> set ?c \<and> readlines ?c = cut_lines ?c"
    by (intro conjI)
next
  let ?k = "''// Copyright (c) 2017 The Jaeger Authors.'' @ CR # ''\<newline>''"
  let ?l = "''// Copyright (c) 2017 The Jaeger Authors.\<newline>''"
  let ?r = "update_go_license (Year 2026) ?k"
  have r: "readlines ?k = [?l]" by (simp add: readlines_def CR_def)
  have s: "COPYRIGHT_RE_search ?l = Some ''2017''"
    by (simp add: match_at_def lower_def isdigit_def)
  have y: "int_of ''2017'' = Inr 2017"
    by (simp add: int_of_def default_max_str_digits_def decimal_def)
  have j: "contains ''Jaeger'' ?l" by simp
  have st: "scan (Year 2026) (take 5 (readlines ?k)) =
      Inr \<lparr>found = True, jaeger = True, year = Some 2017\<rparr>"
    unfolding r by (simp add: s y j year_2026 del: COPYRIGHT_RE_search.simps contains.simps)
  have "?r = \<lparr>disk = ?k, printed = False, raised = None\<rparr>"
    by (rule run_noop [OF st]) simp_all
  then have p: "\<not> printed ?r" by simp
  with rest_of_file_preserved [of ?k "Year 2026", unfolded Let_def]
  have "disk ?r = ?k" by blast
  with p show "\<not> printed ?r \<and> disk ?r = ?k" by (intro conjI)
qed

subsection \<open>C10: the empty file\<close>

text \<open>
  C10: for an empty input file (zero lines) no line matches, so the full-header path is
  taken; \<open>replace\<close> reads \<open>lines[0]\<close> of the empty list and the call ends in an
  \<open>IndexError\<close>. No header is inserted, nothing is written and the name is not
  printed: the file is left as it was.
\<close>

theorem empty_file_IndexError:
  "readlines [] = [] \<and>
   scan cy (take 5 (readlines [])) = Inr \<lparr>found = False, jaeger = False, year = None\<rparr> \<and>
   replace (Lines (LICENSE_BLOB_LINES_GO cy @ [''\<newline>''])) (readlines []) = Inl IndexError \<and>
   update_go_license cy [] = \<lparr>disk = [], printed = False, raised = Some IndexError\<rparr>"
  by (simp add: update_go_license_def update_lines_def readlines_def)

end
